theory Spec2Isabelle
  imports Main "HOL-Library.AList"
begin

section \<open>Roles and role-conditional slots\<close>

type_synonym role = string

text \<open>Modelled from the spec: the roles module (\<open>jsl.roles\<close>) is not among the sources.
  A role is an identifier; \<open>DEFAULT_ROLE\<close> is one fixed role, the default of every
  \<open>role\<close> argument, taken here to be the string \<open>default\<close>. A matcher is a predicate
  over role identifiers.\<close>

definition DEFAULT_ROLE :: role where
  "DEFAULT_ROLE = ''default''"

type_synonym matcher = "role \<Rightarrow> bool"

text \<open>The identity of a document class.\<close>

type_synonym doc_id = string

text \<open>Modelled from the spec: the field classes (\<open>jsl.fields\<close>) and \<open>Var\<close> are not
  among the sources. The variants are those of section 3 of the specification: a scalar
  (named, to tell one leaf from another), an array of one item slot and an optional slot
  for additional items, an object of named property slots, pattern-property slots and an
  optional slot for additional properties, a negation of one slot, a combinator of a
  sequence of slots, and a reference to a document class. A slot holds a plain field or a
  \<open>Var\<close>, an ordered list of (matcher, payload) pairs; a payload is absent, one field
  or a tuple of fields.\<close>

datatype field =
    Scalar string
  | ArrayOf slot "slot option"
  | ObjectOf "(string \<times> slot) list" "(string \<times> slot) list" "slot option"
  | NotOf slot
  | CombinatorOf "slot list"
  | DocumentField doc_id
and slot =
    Plain field
  | Var "(matcher \<times> payload) list"
and payload =
    Absent
  | One field
  | Tuple "field list"

text \<open>A \<open>Var\<close> built from a dictionary keyed by role names matches a role by equality;
  \<open>all_()\<close>, here \<open>all_matcher\<close>, matches every role.\<close>

definition exact :: "role \<Rightarrow> matcher" where
  "exact r = (\<lambda>r'. r' = r)"

definition all_matcher :: matcher where
  "all_matcher = (\<lambda>r. True)"

section \<open>Dictionaries and schema values\<close>

text \<open>A Python \<open>dict\<close> or \<open>OrderedDict\<close>: the entries in iteration order, with the kind
  of mapping kept as the constructor.\<close>

datatype 'v pydict = Dict "(string \<times> 'v) list" | OrderedDict "(string \<times> 'v) list"

datatype json =
    JNull
  | JBool bool
  | JNum int
  | JStr string
  | JArr "json list"
  | JObj "json pydict"

type_synonym schema = "json pydict"

type_synonym definitions = "schema pydict"

fun dict_items :: "'v pydict \<Rightarrow> (string \<times> 'v) list" where
  "dict_items (Dict xs) = xs"
| "dict_items (OrderedDict xs) = xs"

fun is_ordered :: "'v pydict \<Rightarrow> bool" where
  "is_ordered (Dict xs) = False"
| "is_ordered (OrderedDict xs) = True"

definition dict_keys :: "'v pydict \<Rightarrow> string list" where
  "dict_keys d = map fst (dict_items d)"

definition dict_get :: "'v pydict \<Rightarrow> string \<Rightarrow> 'v option" where
  "dict_get d k = map_of (dict_items d) k"

text \<open>\<open>d[k] = v\<close>: an existing key keeps its position and takes the new value, a new key
  goes to the end.\<close>

fun setitem :: "'v pydict \<Rightarrow> string \<Rightarrow> 'v \<Rightarrow> 'v pydict" where
  "setitem (Dict xs) k v = Dict (AList.update k v xs)"
| "setitem (OrderedDict xs) k v = OrderedDict (AList.update k v xs)"

text \<open>\<open>d.update(other)\<close> stores the entries of \<open>other\<close> one after the other.\<close>

definition update_list :: "(string \<times> 'v) list \<Rightarrow> (string \<times> 'v) list \<Rightarrow> (string \<times> 'v) list" where
  "update_list xs other = fold (\<lambda>(k, v) acc. AList.update k v acc) other xs"

fun dict_update :: "'v pydict \<Rightarrow> 'v pydict \<Rightarrow> 'v pydict" where
  "dict_update (Dict xs) other = Dict (update_list xs (dict_items other))"
| "dict_update (OrderedDict xs) other = OrderedDict (update_list xs (dict_items other))"

section \<open>Options and documents\<close>

record options =
  pattern_properties :: "(string \<times> slot) list option"
  additional_properties :: "bool + slot"
  min_properties :: "nat option"
  max_properties :: "nat option"
  title :: "string option"
  description :: "string option"
  default_opt :: "json option"
  enum_opt :: "json list option"
  id_opt :: string
  schema_uri :: "string option"
  definition_id :: "string option"
  roles_to_propagate :: matcher

text \<open>\<open>Options.__init__\<close> with its default arguments.\<close>

definition Options :: options where
  "Options = \<lparr> pattern_properties = None, additional_properties = Inl False,
     min_properties = None, max_properties = None, title = None, description = None,
     default_opt = None, enum_opt = None, id_opt = [],
     schema_uri = Some ''http://json-schema.org/draft-04/schema#'',
     definition_id = None, roles_to_propagate = all_matcher \<rparr>"

text \<open>A document class: \<open>ident\<close> is the identity of the class object (what
  \<open>==\<close> on classes and membership in \<open>visited_documents\<close> compare), \<open>doc_name\<close>
  and \<open>doc_module\<close> are \<open>__name__\<close> and \<open>__module__\<close>, \<open>options\<close> is
  \<open>_options\<close> and \<open>doc_fields\<close> is \<open>_fields\<close>.\<close>

record document =
  ident :: doc_id
  doc_name :: string
  doc_module :: string
  options :: options
  doc_fields :: "(string \<times> slot) list"

text \<open>\<open>Document.get_definition_id\<close>: Python's \<open>or\<close> takes the right operand when the
  left one is \<open>None\<close> or the empty string.\<close>

definition get_definition_id :: "document \<Rightarrow> string" where
  "get_definition_id cls =
     (case definition_id (options cls) of
        None \<Rightarrow> doc_module cls @ ''.'' @ doc_name cls
      | Some s \<Rightarrow> if s \<noteq> [] then s else doc_module cls @ ''.'' @ doc_name cls)"

section \<open>Field traversal\<close>

text \<open>Modelled from the spec: the field classes (\<open>jsl.fields\<close>) and \<open>Var\<close>
  (\<open>jsl.roles\<close>) are not among the sources. The definitions of this section follow
  sections 3, 4.1 and 4.2 of the specification and the assertions of
  \<open>tests/test_iter_methods.py\<close>: a \<open>Var\<close> is an ordered list of (matcher, payload)
  pairs, resolution takes the payload of the first matcher that accepts the role and is
  absent when none does, the role-free traversal visits every branch, and a document
  reference is expanded only when \<open>through_document_fields\<close> is set and its target is
  not in \<open>visited_documents\<close>.\<close>

fun payload_fields :: "payload \<Rightarrow> field list" where
  "payload_fields Absent = []"
| "payload_fields (One f) = [f]"
| "payload_fields (Tuple fs) = fs"

fun possible_values :: "slot \<Rightarrow> field list" where
  "possible_values (Plain f) = [f]"
| "possible_values (Var bs) = concat (map (\<lambda>(m, p). payload_fields p) bs)"

fun resolve_branches :: "(matcher \<times> payload) list \<Rightarrow> role \<Rightarrow> payload" where
  "resolve_branches [] role = Absent"
| "resolve_branches ((m, p) # bs) role = (if m role then p else resolve_branches bs role)"

fun resolve :: "slot \<Rightarrow> role \<Rightarrow> payload" where
  "resolve (Plain f) role = One f"
| "resolve (Var bs) role = resolve_branches bs role"

text \<open>The slot positions of a field, in declaration order.\<close>

fun slots_of :: "field \<Rightarrow> slot list" where
  "slots_of (Scalar n) = []"
| "slots_of (ArrayOf items additional_items) =
     items # (case additional_items of None \<Rightarrow> [] | Some s \<Rightarrow> [s])"
| "slots_of (ObjectOf properties pattern_props additional) =
     map snd properties @ map snd pattern_props
       @ (case additional of None \<Rightarrow> [] | Some s \<Rightarrow> [s])"
| "slots_of (NotOf s) = [s]"
| "slots_of (CombinatorOf ss) = ss"
| "slots_of (DocumentField d) = []"

definition sub_fields :: "field \<Rightarrow> field list" where
  "sub_fields f = concat (map possible_values (slots_of f))"

definition resolved_sub_fields :: "field \<Rightarrow> role \<Rightarrow> field list" where
  "resolved_sub_fields f role =
     concat (map (\<lambda>s. payload_fields (resolve s role)) (slots_of f))"

text \<open>The classes in existence, by identity. A class object cannot dangle in Python; a
  reference to an identity without an entry is treated as having nothing beneath it.\<close>

type_synonym env = "(doc_id \<times> document) list"

text \<open>The \<open>_field\<close> attribute that \<open>DocumentMeta.__new__\<close> builds from the collected
  fields and options.\<close>

definition Document_field :: "document \<Rightarrow> field" where
  "Document_field cls = ObjectOf (doc_fields cls)
     (case pattern_properties (options cls) of None \<Rightarrow> [] | Some pp \<Rightarrow> pp)
     (case additional_properties (options cls) of Inl b \<Rightarrow> None | Inr s \<Rightarrow> Some s)"

fun iter_fields :: "env \<Rightarrow> field \<Rightarrow> field list" where
  "iter_fields env (DocumentField d) =
     (case map_of env d of None \<Rightarrow> [] | Some cls \<Rightarrow> sub_fields (Document_field cls))"
| "iter_fields env f = sub_fields f"

fun resolve_and_iter_fields :: "env \<Rightarrow> field \<Rightarrow> role \<Rightarrow> field list" where
  "resolve_and_iter_fields env (DocumentField d) role =
     (case map_of env d of
        None \<Rightarrow> []
      | Some cls \<Rightarrow> resolved_sub_fields (Document_field cls) role)"
| "resolve_and_iter_fields env f role = resolved_sub_fields f role"

lemma payload_fields_size: "x \<in> set (payload_fields p) \<Longrightarrow> size x < size p"
  by (cases p) (auto simp: less_Suc_eq_le intro: size_list_estimation')

lemma possible_values_size: "x \<in> set (possible_values s) \<Longrightarrow> size x < size s"
proof (cases s)
  case (Plain f)
  assume "x \<in> set (possible_values s)"
  with Plain show ?thesis by simp
next
  case (Var bs)
  assume "x \<in> set (possible_values s)"
  with Var obtain m p where mp: "(m, p) \<in> set bs" and x: "x \<in> set (payload_fields p)"
    by auto
  from x have "size x < size p" by (rule payload_fields_size)
  then have "size x < size_prod (\<lambda>_. 0) size (m, p)" by simp
  with mp have "size x < size_list (size_prod (\<lambda>_. 0) size) bs"
    by (rule size_list_estimation)
  with Var show ?thesis by simp
qed

lemma resolve_branches_in:
  "resolve_branches bs role = p \<Longrightarrow> p = Absent \<or> (\<exists>m. (m, p) \<in> set bs \<and> m role)"
  by (induction bs) (auto split: if_splits)

lemma resolve_subset: "set (payload_fields (resolve s role)) \<subseteq> set (possible_values s)"
proof (cases s)
  case (Plain f) then show ?thesis by simp
next
  case (Var bs)
  from resolve_branches_in[OF refl, of bs role] Var show ?thesis by fastforce
qed

lemma size_in_alist:
  fixes s :: slot
  shows "(a, s) \<in> set xs \<Longrightarrow> size s < size_list (size_prod (\<lambda>x. 0) size) xs"
  by (rule size_list_estimation[where x = "(a, s)"]) simp_all

lemma slots_of_size: "s \<in> set (slots_of f) \<Longrightarrow> size s < size f"
proof (cases f)
  case (ObjectOf ps pps ap)
  assume "s \<in> set (slots_of f)"
  with ObjectOf consider a where "(a, s) \<in> set ps" | a where "(a, s) \<in> set pps" | "ap = Some s"
    by (auto split: option.splits)
  then show ?thesis
  proof cases
    case 1 from size_in_alist[OF 1] ObjectOf show ?thesis by simp
  next
    case 2 from size_in_alist[OF 2] ObjectOf show ?thesis by simp
  next
    case 3 with ObjectOf show ?thesis by simp
  qed
qed (auto simp: less_Suc_eq_le split: option.splits intro!: size_list_estimation')

lemma sub_fields_size: "x \<in> set (sub_fields f) \<Longrightarrow> size x < size f"
  unfolding sub_fields_def using possible_values_size slots_of_size by fastforce

lemma resolved_sub_fields_size: "x \<in> set (resolved_sub_fields f role) \<Longrightarrow> size x < size f"
  unfolding resolved_sub_fields_def
  using possible_values_size slots_of_size resolve_subset by fastforce

lemma unvisited_decreases:
  "map_of env d = Some cls \<Longrightarrow> d \<notin> visited \<Longrightarrow>
     card (dom (map_of env) - insert d visited) < card (dom (map_of env) - visited)"
proof -
  assume a: "map_of env d = Some cls" "d \<notin> visited"
  have fin: "finite (dom (map_of env) - visited)" by (simp add: finite_dom_map_of)
  from a have "d \<in> dom (map_of env) - visited" by auto
  with fin have "card (dom (map_of env) - visited - {d}) < card (dom (map_of env) - visited)"
    by (rule card_Diff1_less)
  moreover have "dom (map_of env) - insert d visited = dom (map_of env) - visited - {d}"
    by auto
  ultimately show ?thesis by simp
qed

text \<open>\<open>walk\<close> yields the field itself and then everything beneath it, in every branch.
  A document reference is followed by the walk of its target class, which is the walk of
  the target's \<open>_field\<close> without its first element (\<open>Document.walk\<close>).\<close>

function (sequential) walk :: "env \<Rightarrow> bool \<Rightarrow> doc_id set \<Rightarrow> field \<Rightarrow> field list" where
  "walk env through_document_fields visited_documents (DocumentField d) =
     DocumentField d #
       (if through_document_fields \<and> d \<notin> visited_documents then
          (case map_of env d of
             None \<Rightarrow> []
           | Some cls \<Rightarrow> tl (walk env through_document_fields (insert d visited_documents)
                             (Document_field cls)))
        else [])"
| "walk env through_document_fields visited_documents f =
     f # concat (map (walk env through_document_fields visited_documents) (iter_fields env f))"
  by pat_completeness auto

termination walk
proof (relation "inv_image (less_than <*lex*> less_than)
         (\<lambda>(env, t, v, f). (card (dom (map_of env) - v), size f))", goal_cases)
  case 1 show ?case by (intro wf_inv_image wf_lex_prod wf_less_than)
next
  case (2 env t v d cls) then show ?case by (simp add: unvisited_decreases)
qed (auto dest: sub_fields_size)

function (sequential) resolve_and_walk ::
  "env \<Rightarrow> role \<Rightarrow> bool \<Rightarrow> doc_id set \<Rightarrow> field \<Rightarrow> field list" where
  "resolve_and_walk env role through_document_fields visited_documents (DocumentField d) =
     DocumentField d #
       (if through_document_fields \<and> d \<notin> visited_documents then
          (case map_of env d of
             None \<Rightarrow> []
           | Some cls \<Rightarrow> tl (resolve_and_walk env role through_document_fields
                             (insert d visited_documents) (Document_field cls)))
        else [])"
| "resolve_and_walk env role through_document_fields visited_documents f =
     f # concat (map (resolve_and_walk env role through_document_fields visited_documents)
                  (resolve_and_iter_fields env f role))"
  by pat_completeness auto

termination resolve_and_walk
proof (relation "inv_image (less_than <*lex*> less_than)
         (\<lambda>(env, r, t, v, f). (card (dom (map_of env) - v), size f))", goal_cases)
  case 1 show ?case by (intro wf_inv_image wf_lex_prod wf_less_than)
next
  case (2 env r t v d cls) then show ?case by (simp add: unvisited_decreases)
qed (auto dest: resolved_sub_fields_size)

section \<open>Document class methods\<close>

definition Document_resolve_and_iter_fields :: "env \<Rightarrow> document \<Rightarrow> role \<Rightarrow> field list" where
  "Document_resolve_and_iter_fields env cls role =
     resolve_and_iter_fields env (Document_field cls) role"

definition Document_resolve_and_walk ::
  "env \<Rightarrow> document \<Rightarrow> role \<Rightarrow> bool \<Rightarrow> doc_id set \<Rightarrow> field list" where
  "Document_resolve_and_walk env cls role through_document_fields visited_documents =
     tl (resolve_and_walk env role through_document_fields visited_documents
           (Document_field cls))"

definition Document_iter_fields :: "env \<Rightarrow> document \<Rightarrow> field list" where
  "Document_iter_fields env cls = iter_fields env (Document_field cls)"

definition Document_walk :: "env \<Rightarrow> document \<Rightarrow> bool \<Rightarrow> doc_id set \<Rightarrow> field list" where
  "Document_walk env cls through_document_fields visited_documents =
     tl (walk env through_document_fields visited_documents (Document_field cls))"

definition is_recursive :: "env \<Rightarrow> document \<Rightarrow> role \<Rightarrow> bool" where
  "is_recursive env cls role =
     list_ex (\<lambda>field. case field of DocumentField d \<Rightarrow> d = ident cls | _ \<Rightarrow> False)
       (Document_resolve_and_walk env cls role True {ident cls})"

section \<open>Class declaration\<close>

text \<open>\<open>attrs\<close> is the class namespace that the metaclass receives: one entry for each
  attribute name, in the order in which the names were first assigned, each with the
  value last assigned to it. A value is a field or \<open>Var\<close>
  (\<open>isinstance(value, (BaseField, Var))\<close>), a \<open>Scope\<close> with its \<open>__matcher__\<close> and its
  ordered \<open>__fields__\<close>, or anything else. A scope that no name of the namespace holds
  any more is not part of \<open>attrs\<close>.\<close>

record scope =
  scope_matcher :: matcher
  scope_fields :: "(string \<times> field) list"

datatype attr = FieldAttr slot | ScopeAttr scope | OtherAttr

text \<open>A base class either has a \<open>_fields\<close> attribute or has not (\<open>hasattr\<close>).\<close>

datatype base = DocumentBase document | OtherBase

text \<open>An entry of \<open>pre_fields\<close>: a declared field, or the marker \<open>to_be_replaced\<close>.\<close>

datatype pre_field = Declared slot | ToBeReplaced

definition inherit_fields :: "base list \<Rightarrow> (string \<times> slot) list" where
  "inherit_fields bases =
     foldl (\<lambda>fields b. case b of
                DocumentBase d \<Rightarrow> update_list fields (doc_fields d)
              | OtherBase \<Rightarrow> fields)
       [] (rev bases)"

definition collect_attr ::
  "(string \<times> pre_field) list \<times> scope list \<Rightarrow> string \<times> attr
     \<Rightarrow> (string \<times> pre_field) list \<times> scope list" where
  "collect_attr acc kv =
     (case acc of (pre_fields, scopes) \<Rightarrow>
        (case kv of (key, v) \<Rightarrow>
           (case v of
              FieldAttr x \<Rightarrow> (AList.update key (Declared x) pre_fields, scopes)
            | ScopeAttr sc \<Rightarrow>
                (foldl (\<lambda>pf scope_key. AList.update scope_key ToBeReplaced pf) pre_fields
                   (map fst (scope_fields sc)),
                 scopes @ [sc])
            | OtherAttr \<Rightarrow> (pre_fields, scopes))))"

definition scope_values :: "scope list \<Rightarrow> string \<Rightarrow> (matcher \<times> payload) list" where
  "scope_values scopes name =
     concat (map (\<lambda>sc. case map_of (scope_fields sc) name of
                          None \<Rightarrow> []
                        | Some f \<Rightarrow> [(scope_matcher sc, One f)]) scopes)"

definition collect_fields :: "base list \<Rightarrow> (string \<times> attr) list \<Rightarrow> (string \<times> slot) list" where
  "collect_fields bases attrs =
     (case foldl collect_attr ([], []) attrs of (pre_fields, scopes) \<Rightarrow>
        foldl (\<lambda>fields nf. case nf of (name, f) \<Rightarrow>
                 (case f of
                    ToBeReplaced \<Rightarrow> AList.update name (Var (scope_values scopes name)) fields
                  | Declared x \<Rightarrow> AList.update name x fields))
          (inherit_fields bases) pre_fields)"

text \<open>\<open>DocumentMeta.__new__\<close>: the class gets the collected fields as \<open>_fields\<close>. The
  options container is taken as built by \<open>create_options\<close>; the registry entry and the
  owner back-references are not part of the schema data.\<close>

definition DocumentMeta_new ::
  "doc_id \<Rightarrow> string \<Rightarrow> string \<Rightarrow> base list \<Rightarrow> (string \<times> attr) list \<Rightarrow> options \<Rightarrow> document" where
  "DocumentMeta_new i name module bases attrs opts =
     \<lparr> ident = i, doc_name = name, doc_module = module, options = opts,
       doc_fields = collect_fields bases attrs \<rparr>"

text \<open>The effective field of a name in the words of the specification, written without
  the functions above: what one entry of the namespace declares for a name (\<open>binds\<close>),
  the declaration of the last entry of the namespace that declares the name
  (\<open>own_declaration\<close>), the (matcher, field) pair of every scope of the namespace that
  declares the name, in namespace order (\<open>scope_pairs\<close>), the field of the first base
  that has the name (\<open>inherited\<close>), and the field these determine.\<close>

fun binds :: "string \<times> attr \<Rightarrow> string \<Rightarrow> pre_field option" where
  "binds (key, FieldAttr x) name = (if key = name then Some (Declared x) else None)"
| "binds (key, ScopeAttr sc) name =
     (if name \<in> fst ` set (scope_fields sc) then Some ToBeReplaced else None)"
| "binds (key, OtherAttr) name = None"

fun own_declaration :: "(string \<times> attr) list \<Rightarrow> string \<Rightarrow> pre_field option" where
  "own_declaration [] name = None"
| "own_declaration (kv # rest) name =
     (case own_declaration rest name of Some b \<Rightarrow> Some b | None \<Rightarrow> binds kv name)"

fun scope_pairs :: "(string \<times> attr) list \<Rightarrow> string \<Rightarrow> (matcher \<times> payload) list" where
  "scope_pairs [] name = []"
| "scope_pairs ((key, ScopeAttr sc) # rest) name =
     (case map_of (scope_fields sc) name of
        None \<Rightarrow> scope_pairs rest name
      | Some f \<Rightarrow> (scope_matcher sc, One f) # scope_pairs rest name)"
| "scope_pairs ((key, FieldAttr x) # rest) name = scope_pairs rest name"
| "scope_pairs ((key, OtherAttr) # rest) name = scope_pairs rest name"

fun inherited :: "base list \<Rightarrow> string \<Rightarrow> slot option" where
  "inherited [] name = None"
| "inherited (DocumentBase d # bases) name =
     (case map_of (doc_fields d) name of Some x \<Rightarrow> Some x | None \<Rightarrow> inherited bases name)"
| "inherited (OtherBase # bases) name = inherited bases name"

definition effective_field :: "base list \<Rightarrow> (string \<times> attr) list \<Rightarrow> string \<Rightarrow> slot option" where
  "effective_field bases attrs name =
     (case own_declaration attrs name of
        Some (Declared x) \<Rightarrow> Some x
      | Some ToBeReplaced \<Rightarrow> Some (Var (scope_pairs attrs name))
      | None \<Rightarrow> inherited bases name)"

text \<open>Two notions for the proofs: the scopes held by the namespace, and the slot that an
  entry of \<open>pre_fields\<close> stands for.\<close>

definition scopes_of :: "(string \<times> attr) list \<Rightarrow> scope list" where
  "scopes_of attrs =
     concat (map (\<lambda>kv. case snd kv of ScopeAttr sc \<Rightarrow> [sc] | _ \<Rightarrow> []) attrs)"

definition declared_value :: "scope list \<Rightarrow> string \<Rightarrow> pre_field \<Rightarrow> slot" where
  "declared_value scopes name f =
     (case f of ToBeReplaced \<Rightarrow> Var (scope_values scopes name) | Declared x \<Rightarrow> x)"

section \<open>Resolution scopes and processing steps\<close>

text \<open>Modelled from the spec: \<open>jsl.resolutionscope\<close> is not among the sources. The scope
  carries the three URIs the code names (\<open>base\<close>, \<open>current\<close>, \<open>output\<close>, here \<open>output_uri\<close>),
  an omitted one being the empty string;
  \<open>replace(output=u)\<close> gives a scope that differs in its output only, and \<open>create_ref\<close>
  gives the fragment holding a reference to \<open>#/definitions/<definition-id>\<close>, relative
  to the output: with the output URI in front unless the current URI is the output.\<close>

record ResolutionScope =
  base :: string
  current :: string
  output_uri :: string

definition replace_output :: "ResolutionScope \<Rightarrow> string \<Rightarrow> ResolutionScope" where
  "replace_output res_scope u = res_scope \<lparr> output_uri := u \<rparr>"

definition create_ref :: "ResolutionScope \<Rightarrow> string \<Rightarrow> schema" where
  "create_ref res_scope def_id =
     Dict [(''$ref'', JStr ((if current res_scope = output_uri res_scope then [] else output_uri res_scope)
                             @ ''#/definitions/'' @ def_id))]"

text \<open>Modelled from the spec: \<open>jsl.exceptions\<close> is not among the sources. A
  schema-generation failure carries a message and the trail of processing steps;
  \<open>processing step\<close> around a block lets a result through and puts \<open>step\<close> in front of
  the trail of a failure (section 7).\<close>

datatype step = DocumentStep doc_id role

datatype error = SchemaGenerationException string "step list"

fun add_step :: "step \<Rightarrow> error \<Rightarrow> error" where
  "add_step st (SchemaGenerationException msg steps) = SchemaGenerationException msg (st # steps)"

definition processing :: "step \<Rightarrow> (error + 'a) \<times> 's \<Rightarrow> (error + 'a) \<times> 's" where
  "processing st r =
     (case r of (Inl e, h) \<Rightarrow> (Inl (add_step st e), h) | (Inr v, h) \<Rightarrow> (Inr v, h))"

section \<open>Schema generation\<close>

text \<open>The \<open>set\<close> objects of the program: an address is an index into the list of the sets
  allocated so far. \<open>ref_documents\<close> is \<open>None\<close> or the address of a set.\<close>

type_synonym addr = nat

type_synonym heap = "doc_id set list"

definition contents :: "heap \<Rightarrow> addr option \<Rightarrow> doc_id set" where
  "contents h ref = (case ref of None \<Rightarrow> {} | Some a \<Rightarrow> if a < length h then h ! a else {})"

definition new_set :: "heap \<Rightarrow> doc_id set \<Rightarrow> addr \<times> heap" where
  "new_set h s = (length h, h @ [s])"

definition set_add :: "heap \<Rightarrow> addr \<Rightarrow> doc_id \<Rightarrow> heap" where
  "set_add h p x = h[p := insert x (h ! p)]"

text \<open>The compilation of a field tree, \<open>cls._field.get_definitions_and_schema\<close>, belongs to
  the field classes; it is a parameter of the document-level functions. It receives the
  field, the role, the scope, the \<open>ordered\<close> flag, \<open>ref_documents\<close> and the sets, and
  returns a failure or the pair of definitions and fragment, and the sets.\<close>

type_synonym field_compiler =
  "field \<Rightarrow> role \<Rightarrow> ResolutionScope \<Rightarrow> bool \<Rightarrow> addr option \<Rightarrow> heap
     \<Rightarrow> (error + definitions \<times> schema) \<times> heap"

text \<open>Lines 295 to 297: the copy of \<open>ref_documents\<close> with the class added, and the scope
  with its output replaced by its base.\<close>

definition recursive_setup ::
  "document \<Rightarrow> ResolutionScope \<Rightarrow> addr option \<Rightarrow> heap
     \<Rightarrow> addr option \<times> ResolutionScope \<times> heap" where
  "recursive_setup cls res_scope ref_documents h =
     (case (if contents h ref_documents \<noteq> {} then new_set h (contents h ref_documents)
            else new_set h {}) of
        (p, h1) \<Rightarrow>
          (Some p, replace_output res_scope (base res_scope), set_add h1 p (ident cls)))"

definition get_definitions_and_schema ::
  "field_compiler \<Rightarrow> env \<Rightarrow> document \<Rightarrow> role \<Rightarrow> ResolutionScope \<Rightarrow> bool \<Rightarrow> addr option
     \<Rightarrow> heap \<Rightarrow> (error + definitions \<times> schema) \<times> heap" where
  "get_definitions_and_schema field_gdas env cls role res_scope ordered ref_documents h =
     (let is_rec = is_recursive env cls DEFAULT_ROLE in
      case (if is_rec then recursive_setup cls res_scope ref_documents h
            else (ref_documents, res_scope, h)) of
        (ref_documents1, res_scope1, h1) \<Rightarrow>
          (case processing (DocumentStep (ident cls) role)
                  (field_gdas (Document_field cls) role res_scope1 ordered ref_documents1 h1) of
             (Inl e, h2) \<Rightarrow> (Inl e, h2)
           | (Inr (definitions, schema), h2) \<Rightarrow>
               if is_rec then
                 (let definition_id = get_definition_id cls in
                    (Inr (setitem definitions definition_id schema,
                          create_ref res_scope1 definition_id), h2))
               else (Inr (definitions, schema), h2)))"

definition get_schema ::
  "field_compiler \<Rightarrow> env \<Rightarrow> document \<Rightarrow> role \<Rightarrow> bool \<Rightarrow> heap \<Rightarrow> (error + schema) \<times> heap" where
  "get_schema field_gdas env cls role ordered h =
     (case get_definitions_and_schema field_gdas env cls role
             \<lparr> base = id_opt (options cls), current = id_opt (options cls), output_uri = [] \<rparr>
             ordered None h of
        (Inl e, h1) \<Rightarrow> (Inl e, h1)
      | (Inr (definitions, schema), h1) \<Rightarrow>
          (let rv0 = (if ordered then OrderedDict [] else Dict []);
               rv1 = (if id_opt (options cls) \<noteq> [] then setitem rv0 ''id'' (JStr (id_opt (options cls)))
                      else rv0);
               rv2 = (case schema_uri (options cls) of
                        Some uri \<Rightarrow> setitem rv1 ''$schema'' (JStr uri)
                      | None \<Rightarrow> rv1);
               rv3 = (if dict_items definitions \<noteq> []
                      then setitem rv2 ''definitions'' (JObj (map_pydict JObj definitions))
                      else rv2)
           in (Inr (dict_update rv3 schema), h1)))"

text \<open>Two properties a field compiler can have: its outcome depends on the sets only
  through the members of \<open>ref_documents\<close>; it leaves every set it finds as it is.\<close>

definition reads_contents_only :: "field_compiler \<Rightarrow> bool" where
  "reads_contents_only F \<longleftrightarrow>
     (\<forall>f role res_scope ordered refs h refs' h'.
        contents h refs = contents h' refs'
          \<longrightarrow> fst (F f role res_scope ordered refs h) = fst (F f role res_scope ordered refs' h'))"

definition preserves_sets :: "field_compiler \<Rightarrow> bool" where
  "preserves_sets F \<longleftrightarrow>
     (\<forall>f role res_scope ordered refs h.
        length h \<le> length (snd (F f role res_scope ordered refs h))
        \<and> (\<forall>p < length h. snd (F f role res_scope ordered refs h) ! p = h ! p))"

section \<open>Example classes\<close>

text \<open>A class with a plain field and a reference to itself that only the role \<open>x\<close>
  sees.\<close>

definition docA :: document where
  "docA = \<lparr> ident = ''A'', doc_name = ''A'', doc_module = ''m'', options = Options,
     doc_fields = [(''name'', Plain (Scalar ''a'')),
                   (''next'', Var [(exact ''x'', One (DocumentField ''A''))])] \<rparr>"

text \<open>Two classes that refer to each other; the second also refers to itself.\<close>

definition docP :: document where
  "docP = \<lparr> ident = ''P'', doc_name = ''P'', doc_module = ''m'', options = Options,
     doc_fields = [(''q'', Plain (DocumentField ''Q''))] \<rparr>"

definition docQ :: document where
  "docQ = \<lparr> ident = ''Q'', doc_name = ''Q'', doc_module = ''m'', options = Options,
     doc_fields = [(''p'', Plain (ArrayOf (Plain (DocumentField ''P'')) None)),
                   (''q'', Plain (DocumentField ''Q''))] \<rparr>"

text \<open>A class whose first field is the \<open>Var\<close> of \<open>test_array_field\<close>.\<close>

definition docV :: document where
  "docV = \<lparr> ident = ''V'', doc_name = ''V'', doc_module = ''m'', options = Options,
     doc_fields = [(''f'', Var [(exact ''role_1'', One (Scalar ''a'')),
                               (exact ''role_2'', One (Scalar ''b'')),
                               (exact ''role_none'', Absent)]),
                   (''g'', Plain (Scalar ''c''))] \<rparr>"

text \<open>A field compiler for the examples: a fragment with one property that refers to the
  class \<open>Q\<close> when \<open>Q\<close> is among \<open>ref_documents\<close>, a failure otherwise.\<close>

definition sample_compiler :: field_compiler where
  "sample_compiler f role res_scope ordered refs h =
     (if ''Q'' \<in> contents h refs
      then Inr (Dict [], Dict [(''type'', JStr ''object''),
                 (''properties'', JObj (Dict [(''q'', JObj (create_ref res_scope ''m.Q''))]))])
      else Inl (SchemaGenerationException ''nesting without end'' []), h)"

definition envPQ :: env where
  "envPQ = [(''P'', docP), (''Q'', docQ)]"

definition sample_scope :: ResolutionScope where
  "sample_scope = \<lparr> base = ''http://example.com/'', current = ''http://example.com/sub'',
     output_uri = ''http://example.com/sub'' \<rparr>"

text \<open>A base class, three scopes that all declare \<open>x\<close>, and two class namespaces: in one
  the name \<open>x\<close> comes before three scopes, in the other after two.\<close>

definition base_doc :: document where
  "base_doc = \<lparr> ident = ''Base'', doc_name = ''Base'', doc_module = ''m'', options = Options,
     doc_fields = [(''x'', Plain (Scalar ''old'')), (''y'', Plain (Scalar ''kept''))] \<rparr>"

definition scope_r1 :: scope where
  "scope_r1 = \<lparr> scope_matcher = exact ''r1'',
     scope_fields = [(''x'', Scalar ''a''), (''z'', Scalar ''a2'')] \<rparr>"

definition scope_r2 :: scope where
  "scope_r2 = \<lparr> scope_matcher = exact ''r2'', scope_fields = [(''x'', Scalar ''b'')] \<rparr>"

definition scope_r3 :: scope where
  "scope_r3 = \<lparr> scope_matcher = exact ''r3'',
     scope_fields = [(''w'', Scalar ''d2''), (''x'', Scalar ''d'')] \<rparr>"

definition attrs_field_first :: "(string \<times> attr) list" where
  "attrs_field_first = [(''x'', FieldAttr (Plain (Scalar ''c''))), (''Options'', OtherAttr),
     (''s1'', ScopeAttr scope_r1), (''s2'', ScopeAttr scope_r2), (''s3'', ScopeAttr scope_r3)]"

definition attrs_field_last :: "(string \<times> attr) list" where
  "attrs_field_last = [(''s1'', ScopeAttr scope_r1), (''s2'', ScopeAttr scope_r2),
     (''x'', FieldAttr (Plain (Scalar ''c'')))]"

section \<open>Definition identifiers\<close>

text \<open>Claim C8, as stated, at a class whose \<open>definition_id\<close> option is explicitly set to
  the empty string: the result is the name built from module and class, not the option.\<close>

theorem get_definition_id_empty_override:
  "get_definition_id \<lparr> ident = ''A'', doc_name = ''A'', doc_module = ''m'',
       options = Options \<lparr> definition_id := Some [] \<rparr>, doc_fields = [] \<rparr> = ''m.A''
   \<and> ''m.A'' \<noteq> the (definition_id (Options \<lparr> definition_id := Some [] \<rparr>))"
  by (simp add: get_definition_id_def Options_def)

text \<open>Claim C8, amended: \<open>get_definition_id\<close> returns the \<open>definition_id\<close> option when
  it is set to a non-empty string, and the string \<open><module>.<class>\<close> when the option is
  unset or empty; the result depends on nothing but these three attributes of the class,
  so it is the same on every call.\<close>

theorem get_definition_id_correct:
  "(definition_id (options cls) = Some s \<and> s \<noteq> [] \<longrightarrow> get_definition_id cls = s)
   \<and> (definition_id (options cls) = None \<or> definition_id (options cls) = Some []
        \<longrightarrow> get_definition_id cls = doc_module cls @ ''.'' @ doc_name cls)
   \<and> (definition_id (options cls') = definition_id (options cls)
        \<and> doc_module cls' = doc_module cls \<and> doc_name cls' = doc_name cls
        \<longrightarrow> get_definition_id cls' = get_definition_id cls)"
  by (auto simp: get_definition_id_def split: option.splits)

theorem get_definition_id_correct_witness:
  "get_definition_id \<lparr> ident = ''A'', doc_name = ''A'', doc_module = ''m'',
       options = Options \<lparr> definition_id := Some ''user'' \<rparr>, doc_fields = [] \<rparr> = ''user''
   \<and> get_definition_id \<lparr> ident = ''A'', doc_name = ''A'', doc_module = ''m'',
       options = Options, doc_fields = [] \<rparr> = ''m.A''
   \<and> get_definition_id \<lparr> ident = ''B'', doc_name = ''A'', doc_module = ''m'',
       options = Options, doc_fields = [(''x'', Plain (Scalar ''a''))] \<rparr>
     = get_definition_id \<lparr> ident = ''A'', doc_name = ''A'', doc_module = ''m'',
       options = Options, doc_fields = [] \<rparr>"
  using get_definition_id_correct
    [of "\<lparr> ident = ''A'', doc_name = ''A'', doc_module = ''m'',
       options = Options \<lparr> definition_id := Some ''user'' \<rparr>, doc_fields = [] \<rparr>" "''user''"
        "\<lparr> ident = ''A'', doc_name = ''A'', doc_module = ''m'',
       options = Options \<lparr> definition_id := Some ''user'' \<rparr>, doc_fields = [] \<rparr>"]
    get_definition_id_correct
    [of "\<lparr> ident = ''A'', doc_name = ''A'', doc_module = ''m'',
       options = Options, doc_fields = [] \<rparr>" "''x''"
        "\<lparr> ident = ''B'', doc_name = ''A'', doc_module = ''m'',
       options = Options, doc_fields = [(''x'', Plain (Scalar ''a''))] \<rparr>"]
  by (simp add: Options_def)

section \<open>Recursion detection\<close>

lemma list_ex_is_self:
  "list_ex (\<lambda>field. case field of DocumentField d \<Rightarrow> d = c | _ \<Rightarrow> False) fs
     \<longleftrightarrow> DocumentField c \<in> set fs"
  by (induction fs) (auto split: field.splits)

lemma is_recursive_mem:
  "is_recursive env cls role \<longleftrightarrow>
     DocumentField (ident cls) \<in> set (Document_resolve_and_walk env cls role True {ident cls})"
  by (simp add: is_recursive_def list_ex_is_self)

lemma Document_resolve_and_walk_unfold:
  "Document_resolve_and_walk env cls role t v =
     concat (map (resolve_and_walk env role t v) (resolved_sub_fields (Document_field cls) role))"
  by (simp add: Document_resolve_and_walk_def Document_field_def)

lemma resolved_scalars:
  "\<forall>s \<in> set ss. \<exists>x. s = Plain (Scalar x) \<Longrightarrow>
     \<forall>f \<in> set (concat (map (\<lambda>s. payload_fields (resolve s role)) ss)). \<exists>x. f = Scalar x"
  by (induction ss) auto

lemma walk_scalars_no_ref:
  "\<forall>f \<in> set fs. \<exists>x. f = Scalar x \<Longrightarrow>
     DocumentField c \<notin> set (concat (map (resolve_and_walk env role t v) fs))"
  by (induction fs) (auto simp: resolved_sub_fields_def)

lemma is_recursive_behind_var:
  assumes a: "doc_fields cls = pre @ [(n, Var [(m, One (DocumentField (ident cls)))])] @ post"
    and sc: "\<forall>s \<in> set (map snd (pre @ post)). \<exists>x. s = Plain (Scalar x)"
    and pp: "pattern_properties (options cls) = None"
    and ap: "additional_properties (options cls) = Inl b"
  shows "is_recursive env cls role \<longleftrightarrow> m role"
proof -
  let ?R = "\<lambda>ss. concat (map (\<lambda>s. payload_fields (resolve s role)) ss)"
  let ?W = "\<lambda>fs. concat (map (resolve_and_walk env role True {ident cls}) fs)"
  from a pp ap have sub: "resolved_sub_fields (Document_field cls) role =
      ?R (map snd pre) @ (if m role then [DocumentField (ident cls)] else []) @ ?R (map snd post)"
    by (simp add: resolved_sub_fields_def Document_field_def)
  from sc have "\<forall>s \<in> set (map snd pre). \<exists>x. s = Plain (Scalar x)" by auto
  then have "\<forall>f \<in> set (?R (map snd pre)). \<exists>x. f = Scalar x"
    by (rule resolved_scalars)
  then have pre: "DocumentField (ident cls) \<notin> set (?W (?R (map snd pre)))"
    by (rule walk_scalars_no_ref)
  from sc have "\<forall>s \<in> set (map snd post). \<exists>x. s = Plain (Scalar x)" by auto
  then have "\<forall>f \<in> set (?R (map snd post)). \<exists>x. f = Scalar x"
    by (rule resolved_scalars)
  then have post: "DocumentField (ident cls) \<notin> set (?W (?R (map snd post)))"
    by (rule walk_scalars_no_ref)
  have "Document_resolve_and_walk env cls role True {ident cls} =
      ?W (?R (map snd pre)) @ (if m role then [DocumentField (ident cls)] else [])
        @ ?W (?R (map snd post))"
    by (simp add: Document_resolve_and_walk_unfold sub)
  with pre post show ?thesis
    by (simp add: is_recursive_mem)
qed

lemma docA_shape:
  "doc_fields docA = [(''name'', Plain (Scalar ''a''))]
             @ [(''next'', Var [(exact ''x'', One (DocumentField (ident docA)))])] @ []
   \<and> (\<forall>s \<in> set (map snd ([(''name'', Plain (Scalar ''a''))] @ [])). \<exists>x. s = Plain (Scalar x))
   \<and> pattern_properties (options docA) = None
   \<and> additional_properties (options docA) = Inl False"
  by (simp add: docA_def Options_def)

lemma docA_recursive_x: "is_recursive [(''A'', docA)] docA ''x''"
  using docA_shape is_recursive_behind_var[of docA _ "''next''" "exact ''x''" "[]" False "[(''A'', docA)]" "''x''"]
  by (simp add: exact_def)

lemma docA_not_recursive_default: "\<not> is_recursive [(''A'', docA)] docA DEFAULT_ROLE"
  using docA_shape is_recursive_behind_var[of docA _ "''next''" "exact ''x''" "[]" False "[(''A'', docA)]" DEFAULT_ROLE]
  by (simp add: exact_def DEFAULT_ROLE_def)

text \<open>Claim C2: \<open>is_recursive(role)\<close> is true exactly when the role-resolved walk through
  document fields, started with \<open>visited_documents = {cls}\<close>, yields a document field
  whose target is the class itself. For a class whose only reference to itself is the
  payload of a \<open>Var\<close> branch with matcher \<open>m\<close>, beside plain scalar fields, the result
  is whether \<open>m\<close> accepts the role: false for a role the branch does not match. The walk
  is a total function on every table of classes, cyclic ones included: each expansion of
  a document field adds its target to \<open>visited_documents\<close>, and the number of classes
  not yet visited is the measure of the termination proof of \<open>resolve_and_walk\<close>.\<close>

theorem is_recursive_correct:
  "(is_recursive env cls role \<longleftrightarrow>
      DocumentField (ident cls) \<in> set (Document_resolve_and_walk env cls role True {ident cls}))
   \<and> (doc_fields cls = pre @ [(n, Var [(m, One (DocumentField (ident cls)))])] @ post
        \<and> (\<forall>s \<in> set (map snd (pre @ post)). \<exists>x. s = Plain (Scalar x))
        \<and> pattern_properties (options cls) = None
        \<and> additional_properties (options cls) = Inl b
      \<longrightarrow> (is_recursive env cls role \<longleftrightarrow> m role))"
  using is_recursive_mem[of env cls role] is_recursive_behind_var[of cls pre n m post b env role]
  by blast

theorem is_recursive_correct_witness:
  "is_recursive [(''A'', docA)] docA ''x'' \<and> \<not> is_recursive [(''A'', docA)] docA DEFAULT_ROLE
   \<and> is_recursive [(''P'', docP), (''Q'', docQ)] docP ''x''"
proof -
  have 1: "is_recursive [(''A'', docA)] docA ''x'' \<longleftrightarrow> exact ''x'' ''x''"
    using is_recursive_correct[THEN conjunct2, rule_format, OF docA_shape] .
  have 2: "is_recursive [(''A'', docA)] docA DEFAULT_ROLE \<longleftrightarrow> exact ''x'' DEFAULT_ROLE"
    using is_recursive_correct[THEN conjunct2, rule_format, OF docA_shape] .
  have "DocumentField (ident docP)
          \<in> set (Document_resolve_and_walk [(''P'', docP), (''Q'', docQ)] docP ''x'' True {ident docP})"
    by (simp add: Document_resolve_and_walk_def Document_field_def docP_def docQ_def Options_def
        resolved_sub_fields_def)
  then have 3: "is_recursive [(''P'', docP), (''Q'', docQ)] docP ''x''"
    using is_recursive_correct[THEN conjunct1, of "[(''P'', docP), (''Q'', docQ)]" docP "''x''"]
    by simp
  from 1 2 3 show ?thesis by (simp add: exact_def DEFAULT_ROLE_def)
qed

text \<open>Claim C1, at the class \<open>docA\<close> compiled under the role \<open>x\<close>: the class is recursive
  under \<open>x\<close>, but \<open>get_definitions_and_schema\<close> asks \<open>is_recursive()\<close> without the role,
  so under the default role, and returns what the compilation of the field tree returns,
  with the caller's scope and \<open>ref_documents\<close> and no definition extracted.\<close>

theorem get_definitions_and_schema_role_ignored:
  "is_recursive [(''A'', docA)] docA ''x''
   \<and> get_definitions_and_schema F [(''A'', docA)] docA ''x'' rs ordered refs h
       = processing (DocumentStep ''A'' ''x'') (F (Document_field docA) ''x'' rs ordered refs h)"
proof -
  have "ident docA = ''A''" by (simp add: docA_def)
  with docA_recursive_x docA_not_recursive_default show ?thesis
    by (auto simp: get_definitions_and_schema_def processing_def split: prod.splits sum.splits)
qed

section \<open>Role-conditional slots\<close>

text \<open>Claim C7: for a field holding, among its slots, a \<open>Var\<close> with branches
  \<open>{r1: a, r2: b, rN: None}\<close>, the role-free \<open>iter_fields\<close> yields for that slot the fields
  of \<open>a\<close> and of \<open>b\<close>, whatever the role; \<open>resolve_and_iter_fields\<close> yields for it the fields
  of \<open>a\<close> under \<open>r1\<close>, those of \<open>b\<close> under \<open>r2\<close>, and none under \<open>rN\<close> or under a role that
  no branch matches. The other slots contribute what they contribute on their own.\<close>

theorem var_slot_roles:
  assumes v: "v = Var [(exact r1, a), (exact r2, b), (exact rN, Absent)]"
    and f: "slots_of f = pre @ [v] @ post"
    and d: "r1 \<noteq> r2" "rN \<noteq> r1" "rN \<noteq> r2"
  shows "iter_fields env f = concat (map possible_values pre)
            @ (payload_fields a @ payload_fields b) @ concat (map possible_values post)
    \<and> resolve_and_iter_fields env f r1 =
           concat (map (\<lambda>s. payload_fields (resolve s r1)) pre) @ payload_fields a
             @ concat (map (\<lambda>s. payload_fields (resolve s r1)) post)
    \<and> resolve_and_iter_fields env f r2 =
           concat (map (\<lambda>s. payload_fields (resolve s r2)) pre) @ payload_fields b
             @ concat (map (\<lambda>s. payload_fields (resolve s r2)) post)
    \<and> resolve_and_iter_fields env f rN =
           concat (map (\<lambda>s. payload_fields (resolve s rN)) pre)
             @ concat (map (\<lambda>s. payload_fields (resolve s rN)) post)
    \<and> (r \<notin> {r1, r2, rN} \<longrightarrow> resolve_and_iter_fields env f r =
           concat (map (\<lambda>s. payload_fields (resolve s r)) pre)
             @ concat (map (\<lambda>s. payload_fields (resolve s r)) post))"
proof -
  from f have nd: "\<And>d. f \<noteq> DocumentField d" by auto
  then have i: "iter_fields env f = sub_fields f"
    and r: "\<And>r. resolve_and_iter_fields env f r = resolved_sub_fields f r"
    by (cases f; simp)+
  have 1: "iter_fields env f = concat (map possible_values pre)
            @ (payload_fields a @ payload_fields b) @ concat (map possible_values post)"
    by (simp add: i sub_fields_def f v)
  have 2: "resolve_and_iter_fields env f r1 =
           concat (map (\<lambda>s. payload_fields (resolve s r1)) pre) @ payload_fields a
             @ concat (map (\<lambda>s. payload_fields (resolve s r1)) post)"
    by (simp add: r resolved_sub_fields_def f v exact_def)
  have 3: "resolve_and_iter_fields env f r2 =
           concat (map (\<lambda>s. payload_fields (resolve s r2)) pre) @ payload_fields b
             @ concat (map (\<lambda>s. payload_fields (resolve s r2)) post)"
    using d by (simp add: r resolved_sub_fields_def f v exact_def)
  have 4: "resolve_and_iter_fields env f rN =
           concat (map (\<lambda>s. payload_fields (resolve s rN)) pre)
             @ concat (map (\<lambda>s. payload_fields (resolve s rN)) post)"
    using d by (simp add: r resolved_sub_fields_def f v exact_def)
  have 5: "resolve_and_iter_fields env f r =
           concat (map (\<lambda>s. payload_fields (resolve s r)) pre)
             @ concat (map (\<lambda>s. payload_fields (resolve s r)) post)" if "r \<notin> {r1, r2, rN}"
    using that by (auto simp add: r resolved_sub_fields_def f v exact_def)
  from 1 2 3 4 5 show ?thesis by blast
qed

theorem var_slot_roles_witness:
  "Document_iter_fields [] docV = [Scalar ''a'', Scalar ''b'', Scalar ''c'']
   \<and> Document_resolve_and_iter_fields [] docV ''role_1'' = [Scalar ''a'', Scalar ''c'']
   \<and> Document_resolve_and_iter_fields [] docV ''role_2'' = [Scalar ''b'', Scalar ''c'']
   \<and> Document_resolve_and_iter_fields [] docV ''role_none'' = [Scalar ''c'']
   \<and> Document_resolve_and_iter_fields [] docV ''role_3'' = [Scalar ''c'']"
proof -
  have s: "slots_of (Document_field docV) =
      [] @ [Var [(exact ''role_1'', One (Scalar ''a'')), (exact ''role_2'', One (Scalar ''b'')),
                 (exact ''role_none'', Absent)]] @ [Plain (Scalar ''c'')]"
    by (simp add: Document_field_def docV_def Options_def)
  have d: "''role_1'' \<noteq> ''role_2''" "''role_none'' \<noteq> ''role_1''" "''role_none'' \<noteq> ''role_2''"
    by simp_all
  show ?thesis
    using var_slot_roles[OF refl s d, of "[]" "''role_3''"]
    by (simp add: Document_iter_fields_def Document_resolve_and_iter_fields_def)
qed

section \<open>Compilation of a recursive document\<close>

lemma recursive_setup_eq:
  "recursive_setup cls res_scope ref_documents h =
     (Some (length h), res_scope \<lparr> output_uri := base res_scope \<rparr>,
      h @ [insert (ident cls) (contents h ref_documents)])"
  by (simp add: recursive_setup_def new_set_def set_add_def replace_output_def)

lemma gdas_recursive:
  assumes "is_recursive env cls DEFAULT_ROLE"
  shows "get_definitions_and_schema F env cls role res_scope ordered ref_documents h =
     (case processing (DocumentStep (ident cls) role)
             (F (Document_field cls) role (res_scope \<lparr> output_uri := base res_scope \<rparr>) ordered
                (Some (length h)) (h @ [insert (ident cls) (contents h ref_documents)])) of
        (Inl e, h2) \<Rightarrow> (Inl e, h2)
      | (Inr (definitions, schema), h2) \<Rightarrow>
          (Inr (setitem definitions (get_definition_id cls) schema,
                create_ref (res_scope \<lparr> output_uri := base res_scope \<rparr>) (get_definition_id cls)),
           h2))"
  using assms
  by (simp add: get_definitions_and_schema_def recursive_setup_eq Let_def
      split: prod.splits sum.splits)

lemma gdas_not_recursive:
  assumes "\<not> is_recursive env cls DEFAULT_ROLE"
  shows "get_definitions_and_schema F env cls role res_scope ordered ref_documents h =
     processing (DocumentStep (ident cls) role)
       (F (Document_field cls) role res_scope ordered ref_documents h)"
  using assms
  by (auto simp: get_definitions_and_schema_def processing_def split: prod.splits sum.splits)

lemma filter_update_key:
  "distinct (map fst xs) \<Longrightarrow>
     filter (\<lambda>kv. fst kv = k) (AList.update k v xs) = [(k, v)]"
proof (induction xs)
  case Nil
  then show ?case by simp
next
  case (Cons x xs)
  obtain k' v' where x: "x = (k', v')" by (cases x)
  show ?case
  proof (cases "k' = k")
    case True
    with Cons.prems x have "k \<notin> fst ` set xs" by auto
    then have "filter (\<lambda>kv. fst kv = k) xs = []" by (auto simp: filter_empty_conv)
    with True x show ?thesis by simp
  next
    case False
    with Cons x show ?thesis by simp
  qed
qed

lemma setitem_items: "dict_items (setitem d k v) = AList.update k v (dict_items d)"
  by (cases d) simp_all

lemma setitem_ordered: "is_ordered (setitem d k v) = is_ordered d"
  by (cases d) simp_all

lemma docQ_recursive: "is_recursive envPQ docQ DEFAULT_ROLE"
  by (simp add: is_recursive_def Document_resolve_and_walk_def Document_field_def envPQ_def
      docP_def docQ_def Options_def resolved_sub_fields_def)

lemma sample_compiler_reads_contents_only: "reads_contents_only sample_compiler"
  by (simp add: reads_contents_only_def sample_compiler_def)

lemma sample_compiler_preserves_sets: "preserves_sets sample_compiler"
  by (simp add: preserves_sets_def sample_compiler_def)

text \<open>Claim C4: when \<open>get_definitions_and_schema\<close> treats the class as recursive (line 292:
  \<open>is_recursive()\<close> holds), the field tree is compiled with the address of a set that holds
  the class itself together with the members of the caller's \<open>ref_documents\<close>, and with a
  scope whose output is the base of the caller's scope, base and current unchanged.\<close>

theorem recursive_document_passed_down:
  assumes "is_recursive env cls DEFAULT_ROLE"
  shows "\<exists>p scope1 h1.
       recursive_setup cls res_scope ref_documents h = (Some p, scope1, h1)
       \<and> get_definitions_and_schema F env cls role res_scope ordered ref_documents h =
         (case processing (DocumentStep (ident cls) role)
                 (F (Document_field cls) role scope1 ordered (Some p) h1) of
            (Inl e, h2) \<Rightarrow> (Inl e, h2)
          | (Inr (definitions, schema), h2) \<Rightarrow>
              (Inr (setitem definitions (get_definition_id cls) schema,
                    create_ref scope1 (get_definition_id cls)), h2))
       \<and> contents h1 (Some p) = insert (ident cls) (contents h ref_documents)
       \<and> ident cls \<in> contents h1 (Some p)
       \<and> output_uri scope1 = base res_scope
       \<and> base scope1 = base res_scope \<and> current scope1 = current res_scope"
  using gdas_recursive[OF assms, of F role res_scope ordered ref_documents h]
  by (auto simp: recursive_setup_eq contents_def)

text \<open>Claim C9: whichever arguments the compilation of the field tree is called with, a
  failure of it comes out of \<open>get_definitions_and_schema\<close> as the same failure with the step
  \<open>DocumentStep(cls, role)\<close> in front of its trail, and a result of it comes out as a
  result: no failure is turned into a result.\<close>

theorem compilation_failure_wrapped:
  assumes "(refs1, scope1, h1) =
             (if is_recursive env cls DEFAULT_ROLE
              then recursive_setup cls res_scope ref_documents h
              else (ref_documents, res_scope, h))"
  shows "(F (Document_field cls) role scope1 ordered refs1 h1
            = (Inl (SchemaGenerationException msg steps), h2)
          \<longrightarrow> get_definitions_and_schema F env cls role res_scope ordered ref_documents h
                = (Inl (SchemaGenerationException msg (DocumentStep (ident cls) role # steps)), h2))
       \<and> (F (Document_field cls) role scope1 ordered refs1 h1 = (Inr v, h2)
          \<longrightarrow> (\<exists>v'. get_definitions_and_schema F env cls role res_scope ordered ref_documents h
                       = (Inr v', h2)))"
proof (cases "is_recursive env cls DEFAULT_ROLE")
  case True
  with assms have a: "refs1 = Some (length h)"
      "scope1 = res_scope \<lparr> output_uri := base res_scope \<rparr>"
      "h1 = h @ [insert (ident cls) (contents h ref_documents)]"
    by (simp_all add: recursive_setup_eq)
  show ?thesis
    unfolding gdas_recursive[OF True] a
    by (auto simp: processing_def split: prod.splits sum.splits)
next
  case False
  with assms have a: "refs1 = ref_documents" "scope1 = res_scope" "h1 = h" by simp_all
  show ?thesis
    unfolding gdas_not_recursive[OF False] a
    by (auto simp: processing_def split: prod.splits sum.splits)
qed

text \<open>Claim C3: for a class treated as recursive, with \<open>scope1\<close> the scope of line 297
  (the value of \<open>res_scope\<close> when line 306 runs), a successful compilation of the field
  tree gives the fragment \<open>scope1.create_ref(definition_id)\<close> and a definitions map with
  exactly one entry under the definition id, holding the compiled fragment. Two calls
  with equal inputs, the \<open>ref_documents\<close> sets having the same members, give the same
  failure or the same pair of definitions and fragment, for a field compiler that reads
  nothing of the sets but the members of \<open>ref_documents\<close>.\<close>

theorem recursive_definition_extracted:
  assumes rec: "is_recursive env cls DEFAULT_ROLE"
    and args: "recursive_setup cls res_scope ref_documents h = (refs1, scope1, h1)"
  shows "(F (Document_field cls) role scope1 ordered refs1 h1 = (Inr (definitions, schema), h2)
          \<and> distinct (dict_keys definitions)
          \<longrightarrow> (\<exists>defs.
                get_definitions_and_schema F env cls role res_scope ordered ref_documents h
                  = (Inr (defs, create_ref scope1 (get_definition_id cls)), h2)
                \<and> filter (\<lambda>kv. fst kv = get_definition_id cls) (dict_items defs)
                    = [(get_definition_id cls, schema)]
                \<and> dict_get defs (get_definition_id cls) = Some schema))
       \<and> (reads_contents_only F \<and> contents h' ref_documents' = contents h ref_documents
          \<longrightarrow> fst (get_definitions_and_schema F env cls role res_scope ordered ref_documents' h')
              = fst (get_definitions_and_schema F env cls role res_scope ordered ref_documents h))
       \<and> scope1 = res_scope \<lparr> output_uri := base res_scope \<rparr>"
proof (intro conjI impI)
  from args show "scope1 = res_scope \<lparr> output_uri := base res_scope \<rparr>"
    by (simp add: recursive_setup_eq)
next
  assume a: "F (Document_field cls) role scope1 ordered refs1 h1 = (Inr (definitions, schema), h2)
          \<and> distinct (dict_keys definitions)"
  from args have s: "refs1 = Some (length h)"
      "scope1 = res_scope \<lparr> output_uri := base res_scope \<rparr>"
      "h1 = h @ [insert (ident cls) (contents h ref_documents)]"
    by (simp_all add: recursive_setup_eq)
  from a have d: "distinct (map fst (dict_items definitions))" by (simp add: dict_keys_def)
  let ?defs = "setitem definitions (get_definition_id cls) schema"
  from a have "get_definitions_and_schema F env cls role res_scope ordered ref_documents h
                  = (Inr (?defs, create_ref scope1 (get_definition_id cls)), h2)"
    unfolding gdas_recursive[OF rec] s by (simp add: processing_def)
  moreover have "filter (\<lambda>kv. fst kv = get_definition_id cls) (dict_items ?defs)
                    = [(get_definition_id cls, schema)]"
    using d by (simp add: setitem_items filter_update_key)
  moreover have "dict_get ?defs (get_definition_id cls) = Some schema"
    by (simp add: dict_get_def setitem_items update_conv')
  ultimately show "\<exists>defs.
                get_definitions_and_schema F env cls role res_scope ordered ref_documents h
                  = (Inr (defs, create_ref scope1 (get_definition_id cls)), h2)
                \<and> filter (\<lambda>kv. fst kv = get_definition_id cls) (dict_items defs)
                    = [(get_definition_id cls, schema)]
                \<and> dict_get defs (get_definition_id cls) = Some schema"
    by blast
next
  assume b: "reads_contents_only F \<and> contents h' ref_documents' = contents h ref_documents"
  let ?args = "\<lambda>refs h. F (Document_field cls) role (res_scope \<lparr> output_uri := base res_scope \<rparr>)
                 ordered (Some (length h)) (h @ [insert (ident cls) (contents h refs)])"
  have "contents (h' @ [insert (ident cls) (contents h' ref_documents')]) (Some (length h'))
      = contents (h @ [insert (ident cls) (contents h ref_documents)]) (Some (length h))"
    using b by (simp add: contents_def)
  with b have "fst (?args ref_documents' h') = fst (?args ref_documents h)"
    unfolding reads_contents_only_def by blast
  then show "fst (get_definitions_and_schema F env cls role res_scope ordered ref_documents' h')
              = fst (get_definitions_and_schema F env cls role res_scope ordered ref_documents h)"
    unfolding gdas_recursive[OF rec]
    by (auto simp: processing_def split: prod.splits sum.splits)
qed

text \<open>Claim C10: every set that exists when \<open>get_definitions_and_schema\<close> is called, the
  caller's \<open>ref_documents\<close> among them, has the same members when it returns, for a field
  compiler that leaves existing sets as they are. For a recursive class the class is
  added to a set at a fresh address, which holds a copy of the members.\<close>

theorem caller_ref_documents_unchanged:
  assumes frame: "preserves_sets F"
    and p: "p < length h"
  shows "snd (get_definitions_and_schema F env cls role res_scope ordered ref_documents h) ! p = h ! p
       \<and> length h \<le> length (snd (get_definitions_and_schema F env cls role res_scope ordered
                                    ref_documents h))
       \<and> (is_recursive env cls DEFAULT_ROLE \<longrightarrow>
            (\<exists>q scope1 h1. recursive_setup cls res_scope ref_documents h = (Some q, scope1, h1)
               \<and> length h \<le> q \<and> h1 ! p = h ! p
               \<and> h1 ! q = insert (ident cls) (contents h ref_documents)))"
proof -
  have snd_proc: "\<And>st r. snd (processing st r) = snd r"
    by (auto simp: processing_def split: prod.splits sum.splits)
  have snd_case: "\<And>r g. snd (case r of (Inl e, h2) \<Rightarrow> (Inl e, h2)
                                 | (Inr (d, s), h2) \<Rightarrow> (Inr (g d s), h2)) = snd r"
    by (auto split: prod.splits sum.splits)
  show ?thesis
  proof (cases "is_recursive env cls DEFAULT_ROLE")
    case True
    let ?h1 = "h @ [insert (ident cls) (contents h ref_documents)]"
    let ?r = "F (Document_field cls) role (res_scope \<lparr> output_uri := base res_scope \<rparr>) ordered
                (Some (length h)) ?h1"
    have out: "snd (get_definitions_and_schema F env cls role res_scope ordered ref_documents h)
        = snd ?r"
      unfolding gdas_recursive[OF True] by (simp add: snd_case snd_proc)
    from p have p1: "p < length ?h1" by simp
    from frame have "length ?h1 \<le> length (snd ?r)" and "\<forall>p < length ?h1. snd ?r ! p = ?h1 ! p"
      unfolding preserves_sets_def by blast+
    with p p1 have "snd ?r ! p = h ! p" "length h \<le> length (snd ?r)"
      by (simp_all add: nth_append)
    with out True p show ?thesis by (simp add: recursive_setup_eq nth_append)
  next
    case False
    let ?r = "F (Document_field cls) role res_scope ordered ref_documents h"
    have out: "snd (get_definitions_and_schema F env cls role res_scope ordered ref_documents h)
        = snd ?r"
      unfolding gdas_not_recursive[OF False] by (simp add: snd_proc)
    from frame p have "snd ?r ! p = h ! p" "length h \<le> length (snd ?r)"
      unfolding preserves_sets_def by blast+
    with out False show ?thesis by simp
  qed
qed


theorem recursive_document_passed_down_witness:
  "is_recursive envPQ docQ DEFAULT_ROLE
   \<and> recursive_setup docQ sample_scope (Some 0) [{''P''}]
       = (Some 1, sample_scope \<lparr> output_uri := ''http://example.com/'' \<rparr>, [{''P''}, {''Q'', ''P''}])
   \<and> get_definitions_and_schema sample_compiler envPQ docQ ''x'' sample_scope False (Some 0) [{''P''}]
       = (Inr (Dict [(''m.Q'', Dict [(''type'', JStr ''object''),
                 (''properties'', JObj (Dict [(''q'',
                     JObj (Dict [(''$ref'', JStr ''http://example.com/#/definitions/m.Q'')]))]))])],
               Dict [(''$ref'', JStr ''http://example.com/#/definitions/m.Q'')]),
          [{''P''}, {''Q'', ''P''}])"
proof -
  have s: "recursive_setup docQ sample_scope (Some 0) [{''P''}]
       = (Some 1, sample_scope \<lparr> output_uri := ''http://example.com/'' \<rparr>, [{''P''}, {''Q'', ''P''}])"
    by (simp add: recursive_setup_eq contents_def sample_scope_def docQ_def)
  from recursive_document_passed_down[OF docQ_recursive, where res_scope = sample_scope
      and ref_documents = "Some 0" and h = "[{''P''}]" and F = sample_compiler and role = "''x''"
      and ordered = False]
  have "get_definitions_and_schema sample_compiler envPQ docQ ''x'' sample_scope False (Some 0) [{''P''}]
      = (case processing (DocumentStep (ident docQ) ''x'')
                 (sample_compiler (Document_field docQ) ''x''
                    (sample_scope \<lparr> output_uri := ''http://example.com/'' \<rparr>) False (Some 1)
                    [{''P''}, {''Q'', ''P''}]) of
            (Inl e, h2) \<Rightarrow> (Inl e, h2)
          | (Inr (definitions, schema), h2) \<Rightarrow>
              (Inr (setitem definitions (get_definition_id docQ) schema,
                    create_ref (sample_scope \<lparr> output_uri := ''http://example.com/'' \<rparr>)
                      (get_definition_id docQ)), h2))"
    unfolding s by simp
  also have "\<dots> = (Inr (Dict [(''m.Q'', Dict [(''type'', JStr ''object''),
                 (''properties'', JObj (Dict [(''q'',
                     JObj (Dict [(''$ref'', JStr ''http://example.com/#/definitions/m.Q'')]))]))])],
               Dict [(''$ref'', JStr ''http://example.com/#/definitions/m.Q'')]),
          [{''P''}, {''Q'', ''P''}])"
    by (simp add: processing_def sample_compiler_def contents_def create_ref_def sample_scope_def
        get_definition_id_def docQ_def Options_def)
  finally show ?thesis using docQ_recursive s by simp
qed


lemma docA_setup:
  "(None, sample_scope, []) =
     (if is_recursive [(''A'', docA)] docA DEFAULT_ROLE
      then recursive_setup docA sample_scope None [] else (None, sample_scope, []))"
  using docA_not_recursive_default by simp

lemma docQ_setup:
  "recursive_setup docQ sample_scope (Some 0) [{''P''}]
     = (Some 1, sample_scope \<lparr> output_uri := ''http://example.com/'' \<rparr>, [{''P''}, {''Q'', ''P''}])"
  by (simp add: recursive_setup_eq contents_def sample_scope_def docQ_def)

lemma sample_compiler_docQ:
  "sample_compiler (Document_field docQ) ''x''
     (sample_scope \<lparr> output_uri := ''http://example.com/'' \<rparr>) False (Some 1)
     [{''P''}, {''Q'', ''P''}]
   = (Inr (Dict [], Dict [(''type'', JStr ''object''),
         (''properties'', JObj (Dict [(''q'',
            JObj (Dict [(''$ref'', JStr ''http://example.com/#/definitions/m.Q'')]))]))]),
      [{''P''}, {''Q'', ''P''}])"
  by (simp add: sample_compiler_def contents_def create_ref_def sample_scope_def)

theorem compilation_failure_wrapped_witness:
  "get_definitions_and_schema sample_compiler [(''A'', docA)] docA ''x'' sample_scope False None []
     = (Inl (SchemaGenerationException ''nesting without end'' [DocumentStep ''A'' ''x'']), [])
   \<and> (\<exists>v'. get_definitions_and_schema sample_compiler envPQ docQ ''x'' sample_scope False
               (Some 0) [{''P''}] = (Inr v', [{''P''}, {''Q'', ''P''}]))"
proof -
  have f: "sample_compiler (Document_field docA) ''x'' sample_scope False None []
      = (Inl (SchemaGenerationException ''nesting without end'' []), [])"
    by (simp add: sample_compiler_def contents_def)
  have i: "ident docA = ''A''" by (simp add: docA_def)
  have q: "(Some 1, sample_scope \<lparr> output_uri := ''http://example.com/'' \<rparr>, [{''P''}, {''Q'', ''P''}])
      = (if is_recursive envPQ docQ DEFAULT_ROLE
         then recursive_setup docQ sample_scope (Some 0) [{''P''}]
         else (Some 0, sample_scope, [{''P''}]))"
    using docQ_recursive docQ_setup by simp
  from compilation_failure_wrapped[OF docA_setup, where F = sample_compiler and role = "''x''"
        and ordered = False, THEN conjunct1, rule_format, OF f]
    compilation_failure_wrapped[OF q, where F = sample_compiler and role = "''x''"
        and ordered = False, THEN conjunct2, rule_format, OF sample_compiler_docQ]
  show ?thesis by (simp add: i)
qed

theorem recursive_definition_extracted_witness:
  "is_recursive envPQ docQ DEFAULT_ROLE
   \<and> (\<exists>defs. get_definitions_and_schema sample_compiler envPQ docQ ''x'' sample_scope False
                 (Some 0) [{''P''}]
               = (Inr (defs, create_ref (sample_scope \<lparr> output_uri := ''http://example.com/'' \<rparr>)
                               ''m.Q''),
                  [{''P''}, {''Q'', ''P''}])
         \<and> filter (\<lambda>kv. fst kv = ''m.Q'') (dict_items defs)
             = [(''m.Q'', Dict [(''type'', JStr ''object''),
                  (''properties'', JObj (Dict [(''q'',
                     JObj (Dict [(''$ref'', JStr ''http://example.com/#/definitions/m.Q'')]))]))])]
         \<and> dict_get defs ''m.Q''
             = Some (Dict [(''type'', JStr ''object''),
                  (''properties'', JObj (Dict [(''q'',
                     JObj (Dict [(''$ref'', JStr ''http://example.com/#/definitions/m.Q'')]))]))]))
   \<and> fst (get_definitions_and_schema sample_compiler envPQ docQ ''x'' sample_scope False
            (Some 1) [{}, {''P''}])
     = fst (get_definitions_and_schema sample_compiler envPQ docQ ''x'' sample_scope False
            (Some 0) [{''P''}])"
proof -
  have g: "get_definition_id docQ = ''m.Q''"
    by (simp add: get_definition_id_def docQ_def Options_def)
  have a: "sample_compiler (Document_field docQ) ''x''
             (sample_scope \<lparr> output_uri := ''http://example.com/'' \<rparr>) False (Some 1)
             [{''P''}, {''Q'', ''P''}]
           = (Inr (Dict [], Dict [(''type'', JStr ''object''),
                 (''properties'', JObj (Dict [(''q'',
                    JObj (Dict [(''$ref'', JStr ''http://example.com/#/definitions/m.Q'')]))]))]),
              [{''P''}, {''Q'', ''P''}])
         \<and> distinct (dict_keys (Dict [] :: definitions))"
    using sample_compiler_docQ by (simp add: dict_keys_def)
  have b: "reads_contents_only sample_compiler
         \<and> contents [{}, {''P''}] (Some 1) = contents [{''P''}] (Some 0)"
    using sample_compiler_reads_contents_only by (simp add: contents_def)
  from recursive_definition_extracted[OF docQ_recursive docQ_setup, where F = sample_compiler
        and role = "''x''" and ordered = False, THEN conjunct1, rule_format, OF a]
    recursive_definition_extracted[OF docQ_recursive docQ_setup, where F = sample_compiler
        and role = "''x''" and ordered = False, THEN conjunct2, THEN conjunct1, rule_format, OF b]
    docQ_recursive
  show ?thesis by (simp add: g)
qed

theorem caller_ref_documents_unchanged_witness:
  "preserves_sets sample_compiler
   \<and> snd (get_definitions_and_schema sample_compiler envPQ docQ ''x'' sample_scope False
            (Some 0) [{''P''}]) ! 0 = {''P''}
   \<and> snd (get_definitions_and_schema sample_compiler [(''A'', docA)] docA ''x'' sample_scope False
            (Some 0) [{''P''}]) ! 0 = {''P''}"
proof -
  have p: "0 < length [{''P''}]" by simp
  from caller_ref_documents_unchanged[OF sample_compiler_preserves_sets p,
      of envPQ docQ "''x''" sample_scope False "Some 0"]
    caller_ref_documents_unchanged[OF sample_compiler_preserves_sets p,
      of "[(''A'', docA)]" docA "''x''" sample_scope False "Some 0"]
    sample_compiler_preserves_sets
  show ?thesis by simp
qed

section \<open>The schema of a document\<close>

lemma keys_update_list:
  "fst ` set (update_list xs other) = fst ` set xs \<union> fst ` set other"
proof (induction other arbitrary: xs)
  case Nil
  then show ?case by (simp add: update_list_def)
next
  case (Cons kv other)
  obtain k v where kv: "kv = (k, v)" by (cases kv)
  have "update_list xs (kv # other) = update_list (AList.update k v xs) other"
    by (simp add: update_list_def kv)
  with Cons.IH[of "AList.update k v xs"] kv show ?case
    using dom_update[of k v xs] by auto
qed

lemma keys_setitem: "set (dict_keys (setitem d k v)) = insert k (set (dict_keys d))"
  using dom_update[of k v "dict_items d"] by (cases d) (auto simp: dict_keys_def)

lemma keys_dict_update:
  "set (dict_keys (dict_update d other)) = set (dict_keys d) \<union> set (dict_keys other)"
  by (cases d) (simp_all add: dict_keys_def keys_update_list)

lemma dict_update_ordered: "is_ordered (dict_update d other) = is_ordered d"
  by (cases d) simp_all

text \<open>Claim C6: when the compilation succeeds, \<open>get_schema\<close> returns a mapping that has
  the key \<open>id\<close> exactly when the \<open>id\<close> option is non-empty, the key \<open>$schema\<close> exactly when
  \<open>schema_uri\<close> is not \<open>None\<close>, and the key \<open>definitions\<close> exactly when the definitions
  returned by the compilation are non-empty; its other keys are those of the fragment;
  it is an \<open>OrderedDict\<close> exactly when \<open>ordered\<close> is true. The fragment comes from the
  field compiler; its keys are taken to be schema keywords of the fragment: neither
  \<open>$schema\<close> nor \<open>definitions\<close>, and \<open>id\<close> only for a class whose \<open>id\<close> option is
  non-empty.\<close>

theorem get_schema_keys:
  assumes g: "get_definitions_and_schema F env cls role
                \<lparr> base = id_opt (options cls), current = id_opt (options cls), output_uri = [] \<rparr>
                ordered None h = (Inr (definitions, schema), h1)"
    and k1: "''$schema'' \<notin> set (dict_keys schema)"
    and k2: "''definitions'' \<notin> set (dict_keys schema)"
    and k3: "''id'' \<in> set (dict_keys schema) \<longrightarrow> id_opt (options cls) \<noteq> []"
  shows "\<exists>rv. get_schema F env cls role ordered h = (Inr rv, h1)
     \<and> (''id'' \<in> set (dict_keys rv) \<longleftrightarrow> id_opt (options cls) \<noteq> [])
     \<and> (''$schema'' \<in> set (dict_keys rv) \<longleftrightarrow> schema_uri (options cls) \<noteq> None)
     \<and> (''definitions'' \<in> set (dict_keys rv) \<longleftrightarrow> dict_items definitions \<noteq> [])
     \<and> set (dict_keys rv) - {''id'', ''$schema'', ''definitions''}
         = set (dict_keys schema) - {''id'', ''$schema'', ''definitions''}
     \<and> (is_ordered rv \<longleftrightarrow> ordered)"
proof -
  define rv0 :: schema where "rv0 = (if ordered then OrderedDict [] else Dict [])"
  define rv1 where "rv1 = (if id_opt (options cls) \<noteq> []
      then setitem rv0 ''id'' (JStr (id_opt (options cls))) else rv0)"
  define rv2 where "rv2 = (case schema_uri (options cls) of
      Some uri \<Rightarrow> setitem rv1 ''$schema'' (JStr uri) | None \<Rightarrow> rv1)"
  define rv3 where "rv3 = (if dict_items definitions \<noteq> []
      then setitem rv2 ''definitions'' (JObj (map_pydict JObj definitions)) else rv2)"
  have res: "get_schema F env cls role ordered h = (Inr (dict_update rv3 schema), h1)"
    unfolding rv3_def rv2_def rv1_def rv0_def get_schema_def g Let_def by simp
  have o: "is_ordered rv3 = ordered"
    by (simp add: rv0_def rv1_def rv2_def rv3_def setitem_ordered split: option.splits)
  have s0: "set (dict_keys rv0) = {}" by (simp add: rv0_def dict_keys_def)
  have s1: "set (dict_keys rv1) = (if id_opt (options cls) \<noteq> [] then {''id''} else {})"
    by (simp add: rv1_def keys_setitem s0)
  have s2: "set (dict_keys rv2) = set (dict_keys rv1)
      \<union> (if schema_uri (options cls) \<noteq> None then {''$schema''} else {})"
    by (simp add: rv2_def keys_setitem split: option.splits)
  have s3: "set (dict_keys rv3) = set (dict_keys rv2)
      \<union> (if dict_items definitions \<noteq> [] then {''definitions''} else {})"
    by (simp add: rv3_def keys_setitem)
  have keys: "set (dict_keys (dict_update rv3 schema)) =
      (if id_opt (options cls) \<noteq> [] then {''id''} else {})
      \<union> (if schema_uri (options cls) \<noteq> None then {''$schema''} else {})
      \<union> (if dict_items definitions \<noteq> [] then {''definitions''} else {})
      \<union> set (dict_keys schema)"
    by (simp only: keys_dict_update s3 s2 s1)
  have a: "''id'' \<in> set (dict_keys (dict_update rv3 schema)) \<longleftrightarrow> id_opt (options cls) \<noteq> []"
    unfolding keys using k3 by auto
  have b: "''$schema'' \<in> set (dict_keys (dict_update rv3 schema))
      \<longleftrightarrow> schema_uri (options cls) \<noteq> None"
    unfolding keys using k1 by auto
  have c: "''definitions'' \<in> set (dict_keys (dict_update rv3 schema))
      \<longleftrightarrow> dict_items definitions \<noteq> []"
    unfolding keys using k2 by auto
  have d: "set (dict_keys (dict_update rv3 schema)) - {''id'', ''$schema'', ''definitions''}
         = set (dict_keys schema) - {''id'', ''$schema'', ''definitions''}"
    unfolding keys by auto
  have e: "is_ordered (dict_update rv3 schema) \<longleftrightarrow> ordered"
    by (simp add: dict_update_ordered o)
  from res a b c d e show ?thesis by blast
qed


theorem get_schema_keys_witness:
  "\<exists>rv. get_schema sample_compiler envPQ docQ ''x'' True [] = (Inr rv, [{''Q''}])
     \<and> ''id'' \<notin> set (dict_keys rv) \<and> ''$schema'' \<in> set (dict_keys rv)
     \<and> ''definitions'' \<in> set (dict_keys rv)
     \<and> set (dict_keys rv) - {''id'', ''$schema'', ''definitions''} = {''$ref''}
     \<and> is_ordered rv"
proof -
  let ?frag = "Dict [(''type'', JStr ''object''),
      (''properties'', JObj (Dict [(''q'', JObj (Dict [(''$ref'', JStr ''#/definitions/m.Q'')]))]))]"
  have g: "get_definitions_and_schema sample_compiler envPQ docQ ''x''
             \<lparr> base = id_opt (options docQ), current = id_opt (options docQ), output_uri = [] \<rparr>
             True None []
           = (Inr (Dict [(''m.Q'', ?frag)], Dict [(''$ref'', JStr ''#/definitions/m.Q'')]), [{''Q''}])"
    unfolding gdas_recursive[OF docQ_recursive]
    by (simp add: processing_def sample_compiler_def contents_def create_ref_def
        get_definition_id_def docQ_def Options_def)
  have k: "''$schema'' \<notin> set (dict_keys (Dict [(''$ref'', JStr ''#/definitions/m.Q'')]))"
      "''definitions'' \<notin> set (dict_keys (Dict [(''$ref'', JStr ''#/definitions/m.Q'')]))"
      "''id'' \<in> set (dict_keys (Dict [(''$ref'', JStr ''#/definitions/m.Q'')]))
         \<longrightarrow> id_opt (options docQ) \<noteq> []"
    by (simp_all add: dict_keys_def)
  from get_schema_keys[OF g k] show ?thesis
    by (simp add: docQ_def Options_def dict_keys_def)
qed

section \<open>Collected fields\<close>

lemma update_list_Cons:
  "update_list xs ((k, v) # other) = update_list (AList.update k v xs) other"
  by (simp add: update_list_def)

lemma map_of_update_list:
  "distinct (map fst other) \<Longrightarrow>
     map_of (update_list xs other) n =
       (case map_of other n of Some v \<Rightarrow> Some v | None \<Rightarrow> map_of xs n)"
proof (induction other arbitrary: xs)
  case Nil
  then show ?case by (simp add: update_list_def)
next
  case (Cons kv other)
  obtain k v where kv: "kv = (k, v)" by (cases kv)
  from Cons.prems kv have d: "distinct (map fst other)" and nk: "k \<notin> fst ` set other" by auto
  from nk have none: "map_of other k = None" by (simp add: map_of_eq_None_iff)
  show ?case
    unfolding kv update_list_Cons Cons.IH[OF d]
    using none by (auto simp: update_conv' split: option.splits)
qed

lemma distinct_update_list:
  "distinct (map fst xs) \<Longrightarrow> distinct (map fst (update_list xs other))"
proof (induction other arbitrary: xs)
  case Nil
  then show ?case by (simp add: update_list_def)
next
  case (Cons kv other)
  obtain k v where kv: "kv = (k, v)" by (cases kv)
  from Cons.prems have "distinct (map fst (AList.update k v xs))" by (rule distinct_update)
  then show ?case unfolding kv update_list_Cons by (rule Cons.IH)
qed

lemma inherit_fields_Cons:
  "inherit_fields (b # bases) =
     (case b of DocumentBase d \<Rightarrow> update_list (inherit_fields bases) (doc_fields d)
              | OtherBase \<Rightarrow> inherit_fields bases)"
  by (cases b) (simp_all add: inherit_fields_def)

lemma distinct_inherit_fields: "distinct (map fst (inherit_fields bases))"
proof (induction bases)
  case Nil
  then show ?case by (simp add: inherit_fields_def)
next
  case (Cons b bases)
  then show ?case by (cases b) (simp_all add: inherit_fields_Cons distinct_update_list)
qed

lemma map_of_inherit_fields:
  "\<forall>d. DocumentBase d \<in> set bases \<longrightarrow> distinct (map fst (doc_fields d)) \<Longrightarrow>
     map_of (inherit_fields bases) n = inherited bases n"
proof (induction bases)
  case Nil
  then show ?case by (simp add: inherit_fields_def)
next
  case (Cons b bases)
  then have IH: "map_of (inherit_fields bases) n = inherited bases n" by simp
  show ?case
  proof (cases b)
    case (DocumentBase d)
    with Cons.prems have "distinct (map fst (doc_fields d))" by simp
    with DocumentBase IH show ?thesis
      by (simp add: inherit_fields_Cons map_of_update_list split: option.splits)
  next
    case OtherBase
    with IH show ?thesis by (simp add: inherit_fields_Cons)
  qed
qed

lemma own_declaration_snoc:
  "own_declaration (attrs @ [kv]) n =
     (case binds kv n of Some b \<Rightarrow> Some b | None \<Rightarrow> own_declaration attrs n)"
  by (induction attrs) (auto split: option.splits)

lemma mark_keys:
  "map_of (foldl (\<lambda>pf k. AList.update k ToBeReplaced pf) pf ks) n =
     (if n \<in> set ks then Some ToBeReplaced else map_of pf n)"
  by (induction ks arbitrary: pf) (auto simp: update_conv')

lemma distinct_mark_keys:
  "distinct (map fst pf) \<Longrightarrow>
     distinct (map fst (foldl (\<lambda>pf k. AList.update k ToBeReplaced pf) pf ks))"
  by (induction ks arbitrary: pf) (auto simp: distinct_update)

lemma collect_attr_simps:
  "collect_attr (pf, scs) (k, FieldAttr x) = (AList.update k (Declared x) pf, scs)"
  "collect_attr (pf, scs) (k, ScopeAttr sc) =
     (foldl (\<lambda>pf scope_key. AList.update scope_key ToBeReplaced pf) pf (map fst (scope_fields sc)),
      scs @ [sc])"
  "collect_attr (pf, scs) (k, OtherAttr) = (pf, scs)"
  by (simp_all add: collect_attr_def)

lemma scopes_of_snoc:
  "scopes_of (attrs @ [(k, v)]) = scopes_of attrs @ (case v of ScopeAttr sc \<Rightarrow> [sc] | _ \<Rightarrow> [])"
  by (simp add: scopes_of_def)

lemma collect_attr_scopes:
  "snd (foldl collect_attr ([], []) attrs) = scopes_of attrs"
proof (induction attrs rule: rev_induct)
  case Nil
  then show ?case by (simp add: scopes_of_def)
next
  case (snoc kv attrs)
  obtain pf scs where acc: "foldl collect_attr ([], []) attrs = (pf, scs)"
    by (cases "foldl collect_attr ([], []) attrs")
  obtain k v where kv: "kv = (k, v)" by (cases kv)
  from snoc acc have scs: "scs = scopes_of attrs" by simp
  have step: "foldl collect_attr ([], []) (attrs @ [kv]) = collect_attr (pf, scs) (k, v)"
    by (simp add: acc kv)
  show ?case
    unfolding kv scopes_of_snoc
    by (cases v) (simp_all add: acc collect_attr_simps scs)
qed

lemma collect_attr_pre_fields:
  "map_of (fst (foldl collect_attr ([], []) attrs)) n = own_declaration attrs n
   \<and> distinct (map fst (fst (foldl collect_attr ([], []) attrs)))"
proof (induction attrs rule: rev_induct)
  case Nil
  then show ?case by simp
next
  case (snoc kv attrs)
  obtain pf scs where acc: "foldl collect_attr ([], []) attrs = (pf, scs)"
    by (cases "foldl collect_attr ([], []) attrs")
  obtain k v where kv: "kv = (k, v)" by (cases kv)
  from snoc acc have m: "map_of pf n = own_declaration attrs n"
    and d: "distinct (map fst pf)" by simp_all
  have step: "foldl collect_attr ([], []) (attrs @ [kv]) = collect_attr (pf, scs) (k, v)"
    by (simp add: acc kv)
  show ?case
  proof (cases v)
    case (FieldAttr x)
    with m d show ?thesis
      unfolding kv own_declaration_snoc
      by (simp add: acc collect_attr_simps update_conv' distinct_update)
  next
    case (ScopeAttr sc)
    with m d show ?thesis
      unfolding kv own_declaration_snoc
      by (simp add: acc collect_attr_simps mark_keys distinct_mark_keys)
  next
    case OtherAttr
    with m d show ?thesis
      unfolding kv own_declaration_snoc
      by (simp add: acc collect_attr_simps)
  qed
qed

lemma place_fields:
  "distinct (map fst pre) \<Longrightarrow>
   map_of (foldl (\<lambda>fields nf. case nf of (name, f) \<Rightarrow>
                 (case f of
                    ToBeReplaced \<Rightarrow> AList.update name (Var (scope_values scopes name)) fields
                  | Declared x \<Rightarrow> AList.update name x fields)) fields0 pre) n
     = (case map_of pre n of Some f \<Rightarrow> Some (declared_value scopes n f)
                           | None \<Rightarrow> map_of fields0 n)"
proof (induction pre arbitrary: fields0)
  case Nil
  then show ?case by simp
next
  case (Cons nf pre)
  obtain k f where nf: "nf = (k, f)" by (cases nf)
  from Cons.prems nf have d: "distinct (map fst pre)" and nk: "k \<notin> fst ` set pre" by auto
  from nk have none: "map_of pre k = None" by (simp add: map_of_eq_None_iff)
  show ?case
    unfolding nf using none
    by (cases f) (auto simp: Cons.IH[OF d] update_conv' declared_value_def split: option.splits)
qed

lemma distinct_place_fields:
  "distinct (map fst fields0) \<Longrightarrow>
   distinct (map fst (foldl (\<lambda>fields nf. case nf of (name, f) \<Rightarrow>
                 (case f of
                    ToBeReplaced \<Rightarrow> AList.update name (Var (scope_values scopes name)) fields
                  | Declared x \<Rightarrow> AList.update name x fields)) fields0 pre))"
proof (induction pre arbitrary: fields0)
  case Nil
  then show ?case by simp
next
  case (Cons nf pre)
  obtain k f where nf: "nf = (k, f)" by (cases nf)
  show ?case
    unfolding nf using Cons.prems
    by (cases f) (auto intro!: Cons.IH simp: distinct_update)
qed

lemma scope_values_scopes_of: "scope_values (scopes_of attrs) n = scope_pairs attrs n"
  by (induction attrs n rule: scope_pairs.induct)
    (simp_all add: scope_values_def scopes_of_def split: option.splits)

lemma set_scope_pairs:
  "set (scope_pairs attrs n) =
     {(scope_matcher sc, One f) | k sc f.
        (k, ScopeAttr sc) \<in> set attrs \<and> map_of (scope_fields sc) n = Some f}"
proof (induction attrs n rule: scope_pairs.induct)
  case (1 name)
  show ?case by simp
next
  case (2 key sc rest name)
  show ?case
  proof (cases "map_of (scope_fields sc) name")
    case None
    with 2 show ?thesis by auto
  next
    case (Some f)
    with 2 show ?thesis by auto
  qed
next
  case (3 key x rest name)
  then show ?case by auto
next
  case (4 key rest name)
  then show ?case by auto
qed

lemma collect_fields_lookup:
  assumes "\<forall>d. DocumentBase d \<in> set bases \<longrightarrow> distinct (map fst (doc_fields d))"
  shows "map_of (collect_fields bases attrs) n = effective_field bases attrs n"
proof -
  obtain pf scs where acc: "foldl collect_attr ([], []) attrs = (pf, scs)"
    by (cases "foldl collect_attr ([], []) attrs")
  from collect_attr_scopes[of attrs] acc have scs: "scs = scopes_of attrs" by simp
  from collect_attr_pre_fields[of attrs n] acc
  have m: "map_of pf n = own_declaration attrs n" and d: "distinct (map fst pf)" by simp_all
  have "map_of (collect_fields bases attrs) n =
      (case map_of pf n of Some f \<Rightarrow> Some (declared_value scs n f)
                         | None \<Rightarrow> map_of (inherit_fields bases) n)"
    unfolding collect_fields_def acc by (simp add: place_fields[OF d])
  also have "\<dots> = effective_field bases attrs n"
    by (simp add: m scs map_of_inherit_fields[OF assms] effective_field_def
        declared_value_def scope_values_scopes_of split: option.splits pre_field.splits)
  finally show ?thesis .
qed

lemma collect_fields_distinct: "distinct (map fst (collect_fields bases attrs))"
  unfolding collect_fields_def
  by (auto split: prod.splits intro!: distinct_place_fields distinct_inherit_fields)


lemma own_declaration_append:
  "\<forall>kv \<in> set after. binds kv n = None \<Longrightarrow>
     own_declaration (before @ after) n = own_declaration before n"
proof (induction after rule: rev_induct)
  case Nil
  then show ?case by simp
next
  case (snoc kv after)
  then have "own_declaration (before @ after) n = own_declaration before n"
    and "binds kv n = None" by simp_all
  then show ?case
    using own_declaration_snoc[of "before @ after" kv n] by simp
qed

lemma own_declaration_last_scope:
  assumes "attrs = before @ [(k, ScopeAttr sc)] @ after"
    and "n \<in> fst ` set (scope_fields sc)"
    and "\<forall>kv \<in> set after. binds kv n = None"
  shows "own_declaration attrs n = Some ToBeReplaced"
proof -
  have "own_declaration attrs n = own_declaration (before @ [(k, ScopeAttr sc)]) n"
    using own_declaration_append[OF assms(3), of "before @ [(k, ScopeAttr sc)]"] assms(1) by simp
  also have "\<dots> = Some ToBeReplaced"
    using assms(2) by (simp add: own_declaration_snoc)
  finally show ?thesis .
qed

lemma own_declaration_last_field:
  assumes "attrs = before @ [(n, FieldAttr x)] @ after"
    and "\<forall>kv \<in> set after. binds kv n = None"
  shows "own_declaration attrs n = Some (Declared x)"
proof -
  have "own_declaration attrs n = own_declaration (before @ [(n, FieldAttr x)]) n"
    using own_declaration_append[OF assms(2), of "before @ [(n, FieldAttr x)]"] assms(1) by simp
  also have "\<dots> = Some (Declared x)"
    by (simp add: own_declaration_snoc)
  finally show ?thesis .
qed

lemma own_declaration_none:
  "\<forall>kv \<in> set attrs. binds kv n = None \<Longrightarrow> own_declaration attrs n = None"
  using own_declaration_append[of attrs n "[]"] by simp

text \<open>Claim C5, as stated, at a class whose body opens two scopes that both declare \<open>x\<close>
  and then assigns \<open>x\<close> for the first time, so that the namespace holds the two scopes
  and after them the name \<open>x\<close>: the effective field is the directly assigned one, not
  a \<open>Var\<close> of the two scopes.\<close>

theorem collect_fields_direct_after_scopes:
  "fst ` set (scope_fields scope_r1) \<inter> fst ` set (scope_fields scope_r2) = {''x''}
   \<and> map_of (doc_fields (DocumentMeta_new ''D'' ''D'' ''m'' [] attrs_field_last Options)) ''x''
       = Some (Plain (Scalar ''c''))
   \<and> map_of (doc_fields (DocumentMeta_new ''D'' ''D'' ''m'' [] attrs_field_last Options)) ''x''
       \<noteq> Some (Var [(scope_matcher scope_r1, One (Scalar ''a'')),
                     (scope_matcher scope_r2, One (Scalar ''b''))])"
  by (simp add: DocumentMeta_new_def collect_fields_def collect_attr_def attrs_field_last_def
      scope_r1_def scope_r2_def inherit_fields_def scope_values_def)

text \<open>Claim C5, amended: the \<open>_fields\<close> of a declared class map a name to what the last
  entry of the class namespace that declares the name declares for it, and to the field
  of the first base (in base order, so of the last one merged) that has the name when no
  entry declares it. An entry declares a name when it binds that very name to a field
  or \<open>Var\<close>, or when its value is a scope that has the name among its fields. When the
  last declaring entry is a scope, the effective field is the single \<open>Var\<close> of the
  (matcher, field) pairs of every scope held by the namespace that declares the name, in
  namespace order; when it is a direct binding, the bound value. So a name declared in
  several scopes of the namespace becomes that \<open>Var\<close> unless the namespace binds the name
  directly at an entry that comes after the last of these scopes. The names of the
  result are distinct.\<close>

theorem collect_fields_effective:
  assumes "\<forall>d. DocumentBase d \<in> set bases \<longrightarrow> distinct (map fst (doc_fields d))"
  shows "map_of (doc_fields (DocumentMeta_new i name module bases attrs opts)) n
           = effective_field bases attrs n
     \<and> distinct (map fst (doc_fields (DocumentMeta_new i name module bases attrs opts)))
     \<and> (attrs = before @ [(k, ScopeAttr sc)] @ after \<and> n \<in> fst ` set (scope_fields sc)
          \<and> (\<forall>kv \<in> set after. binds kv n = None)
        \<longrightarrow> map_of (doc_fields (DocumentMeta_new i name module bases attrs opts)) n
              = Some (Var (scope_pairs attrs n)))
     \<and> (attrs = before @ [(n, FieldAttr x)] @ after
          \<and> (\<forall>kv \<in> set after. binds kv n = None)
        \<longrightarrow> map_of (doc_fields (DocumentMeta_new i name module bases attrs opts)) n = Some x)
     \<and> ((\<forall>kv \<in> set attrs. binds kv n = None)
        \<longrightarrow> map_of (doc_fields (DocumentMeta_new i name module bases attrs opts)) n
              = inherited bases n)
     \<and> set (scope_pairs attrs n) =
         {(scope_matcher sc', One f) | k' sc' f.
            (k', ScopeAttr sc') \<in> set attrs \<and> map_of (scope_fields sc') n = Some f}"
proof (intro conjI impI)
  show l: "map_of (doc_fields (DocumentMeta_new i name module bases attrs opts)) n
           = effective_field bases attrs n"
    by (simp add: DocumentMeta_new_def collect_fields_lookup[OF assms])
  show "distinct (map fst (doc_fields (DocumentMeta_new i name module bases attrs opts)))"
    by (simp add: DocumentMeta_new_def collect_fields_distinct)
  show "set (scope_pairs attrs n) =
         {(scope_matcher sc', One f) | k' sc' f.
            (k', ScopeAttr sc') \<in> set attrs \<and> map_of (scope_fields sc') n = Some f}"
    by (rule set_scope_pairs)
  {
    assume "attrs = before @ [(k, ScopeAttr sc)] @ after \<and> n \<in> fst ` set (scope_fields sc)
          \<and> (\<forall>kv \<in> set after. binds kv n = None)"
    then have "attrs = before @ [(k, ScopeAttr sc)] @ after"
      and "n \<in> fst ` set (scope_fields sc)"
      and "\<forall>kv \<in> set after. binds kv n = None" by simp_all
    then have "own_declaration attrs n = Some ToBeReplaced"
      by (rule own_declaration_last_scope)
    then show "map_of (doc_fields (DocumentMeta_new i name module bases attrs opts)) n
              = Some (Var (scope_pairs attrs n))"
      by (simp add: l effective_field_def)
  }
  {
    assume "attrs = before @ [(n, FieldAttr x)] @ after
          \<and> (\<forall>kv \<in> set after. binds kv n = None)"
    then have "attrs = before @ [(n, FieldAttr x)] @ after"
      and "\<forall>kv \<in> set after. binds kv n = None" by simp_all
    then have "own_declaration attrs n = Some (Declared x)"
      by (rule own_declaration_last_field)
    then show "map_of (doc_fields (DocumentMeta_new i name module bases attrs opts)) n = Some x"
      by (simp add: l effective_field_def)
  }
  {
    assume "\<forall>kv \<in> set attrs. binds kv n = None"
    then have "own_declaration attrs n = None" by (rule own_declaration_none)
    then show "map_of (doc_fields (DocumentMeta_new i name module bases attrs opts)) n
              = inherited bases n"
      by (simp add: l effective_field_def)
  }
qed

theorem collect_fields_effective_witness:
  "map_of (doc_fields (DocumentMeta_new ''D'' ''D'' ''m'' [OtherBase, DocumentBase base_doc]
             attrs_field_first Options)) ''x''
     = Some (Var [(exact ''r1'', One (Scalar ''a'')), (exact ''r2'', One (Scalar ''b'')),
                  (exact ''r3'', One (Scalar ''d''))])
   \<and> map_of (doc_fields (DocumentMeta_new ''D'' ''D'' ''m'' [OtherBase, DocumentBase base_doc]
             attrs_field_first Options)) ''y''
     = Some (Plain (Scalar ''kept''))
   \<and> map_of (doc_fields (DocumentMeta_new ''D'' ''D'' ''m'' [OtherBase, DocumentBase base_doc]
             attrs_field_last Options)) ''x''
     = Some (Plain (Scalar ''c''))
   \<and> distinct (map fst (doc_fields (DocumentMeta_new ''D'' ''D'' ''m''
             [OtherBase, DocumentBase base_doc] attrs_field_first Options)))"
proof -
  have b: "\<forall>d. DocumentBase d \<in> set [OtherBase, DocumentBase base_doc]
             \<longrightarrow> distinct (map fst (doc_fields d))"
    by (simp add: base_doc_def)
  have s: "attrs_field_first = [(''x'', FieldAttr (Plain (Scalar ''c''))), (''Options'', OtherAttr),
               (''s1'', ScopeAttr scope_r1), (''s2'', ScopeAttr scope_r2)]
             @ [(''s3'', ScopeAttr scope_r3)] @ []
         \<and> ''x'' \<in> fst ` set (scope_fields scope_r3)
         \<and> (\<forall>kv \<in> set []. binds kv ''x'' = None)"
    by (simp add: attrs_field_first_def scope_r3_def)
  have f: "attrs_field_last = [(''s1'', ScopeAttr scope_r1), (''s2'', ScopeAttr scope_r2)]
             @ [(''x'', FieldAttr (Plain (Scalar ''c'')))] @ []
         \<and> (\<forall>kv \<in> set []. binds kv ''x'' = None)"
    by (simp add: attrs_field_last_def)
  have u: "\<forall>kv \<in> set attrs_field_first. binds kv ''y'' = None"
    by (simp add: attrs_field_first_def scope_r1_def scope_r2_def scope_r3_def)
  have v: "scope_pairs attrs_field_first ''x''
      = [(exact ''r1'', One (Scalar ''a'')), (exact ''r2'', One (Scalar ''b'')),
         (exact ''r3'', One (Scalar ''d''))]"
    by (simp add: attrs_field_first_def scope_r1_def scope_r2_def scope_r3_def)
  have y: "inherited [OtherBase, DocumentBase base_doc] ''y'' = Some (Plain (Scalar ''kept''))"
    by (simp add: base_doc_def)
  note t = collect_fields_effective[OF b, where i = "''D''" and name = "''D''"
      and module = "''m''" and opts = Options]
  have 1: "map_of (doc_fields (DocumentMeta_new ''D'' ''D'' ''m'' [OtherBase, DocumentBase base_doc]
                 attrs_field_first Options)) ''x''
      = Some (Var [(exact ''r1'', One (Scalar ''a'')), (exact ''r2'', One (Scalar ''b'')),
                   (exact ''r3'', One (Scalar ''d''))])"
    using t[THEN conjunct2, THEN conjunct2, THEN conjunct1, rule_format, OF s]
    unfolding v .
  have 2: "map_of (doc_fields (DocumentMeta_new ''D'' ''D'' ''m'' [OtherBase, DocumentBase base_doc]
                 attrs_field_first Options)) ''y''
      = Some (Plain (Scalar ''kept''))"
    using t[THEN conjunct2, THEN conjunct2, THEN conjunct2, THEN conjunct2, THEN conjunct1,
        THEN mp, OF u]
    unfolding y .
  have 3: "map_of (doc_fields (DocumentMeta_new ''D'' ''D'' ''m'' [OtherBase, DocumentBase base_doc]
                 attrs_field_last Options)) ''x''
      = Some (Plain (Scalar ''c''))"
    using t[THEN conjunct2, THEN conjunct2, THEN conjunct2, THEN conjunct1, rule_format, OF f] .
  have 4: "distinct (map fst (doc_fields (DocumentMeta_new ''D'' ''D'' ''m''
             [OtherBase, DocumentBase base_doc] attrs_field_first Options)))"
    using t[THEN conjunct2, THEN conjunct1, of attrs_field_first] .
  from 1 2 3 4 show ?thesis by (intro conjI)
qed

end
